theory Spec2Isabelle
  imports Complex_Main
begin

section \<open>Credential holder (tokenManager.ts)\<close>

text \<open>
  \<^verbatim>\<open>class TokenManager { private token: string | null = null; ... }\<close>

  The private field is \<open>null\<close> or a string. \<open>getToken\<close> tests \<open>!this.token\<close>, which in
  JavaScript is true for \<open>null\<close> and for the empty string; it then throws
  \<open>Error('No token set')\<close>.
\<close>

datatype js_error = NoTokenSet

record TokenManager =
  token :: "string option"

definition tokenManager :: TokenManager where
  "tokenManager = \<lparr>token = None\<rparr>"

definition setToken :: "string \<Rightarrow> TokenManager \<Rightarrow> TokenManager" where
  "setToken newToken tm = tm\<lparr>token := Some newToken\<rparr>"

definition getToken :: "TokenManager \<Rightarrow> js_error + string" where
  "getToken tm =
     (case token tm of
        None \<Rightarrow> Inl NoTokenSet
      | Some t \<Rightarrow> if t = [] then Inl NoTokenSet else Inr t)"

definition clearToken :: "TokenManager \<Rightarrow> TokenManager" where
  "clearToken tm = tm\<lparr>token := None\<rparr>"

section \<open>JavaScript strings\<close>

text \<open>
  A JavaScript string is a sequence of UTF-16 code units; \<open>===\<close> on strings compares the
  sequences. A code unit is a natural number (below 65536; nothing here uses the bound).
  \<open>js\<close> turns an ASCII literal into its code units.
\<close>

type_synonym code_unit = nat

type_synonym jsstring = "code_unit list"

definition js :: "string \<Rightarrow> jsstring" where
  "js s = map of_char s"

section \<open>Metadata normalizer: raw descriptors\<close>

text \<open>
  The descriptor interfaces (\<open>TableInfo\<close>, \<open>ColumnInfo\<close>, \<open>IndexInfo\<close>, \<open>PrimaryKeyInfo\<close>,
  \<open>ViewInfo\<close>) are imported by the source; their fields are the ones
  \<open>createTablesFromMetadata\<close> reads. An optional field (\<open>schema?\<close>, \<open>comment?\<close>) is an
  \<open>option\<close>, \<open>None\<close> standing for \<open>undefined\<close>.
\<close>

record TableInfo =
  ti_schema :: "jsstring option"
  ti_table :: jsstring
  ti_comment :: "jsstring option"
  ti_auditable :: bool
  ti_revisionEnabled :: bool

record PrecisionInfo =
  p_precision :: "int option"
  p_scale :: "int option"

record ColumnInfo =
  col_schema :: "jsstring option"
  col_table :: jsstring
  col_name :: jsstring
  ordinal_position :: int
  col_type :: jsstring
  col_nullable :: bool
  col_character_maximum_length :: "jsstring option"
  col_precision :: "PrecisionInfo option"
  col_default :: "jsstring option"
  col_collation :: "jsstring option"
  col_comment :: "jsstring option"

record IndexInfo =
  idx_schema :: "jsstring option"
  idx_table :: jsstring
  idx_name :: jsstring
  idx_unique :: bool
  idx_column :: jsstring
  column_position :: int

record PrimaryKeyInfo =
  pk_schema :: "jsstring option"
  pk_table :: jsstring
  pk_column :: jsstring

record ViewInfo =
  view_schema :: "jsstring option"
  view_name :: jsstring

record Metadata =
  tableInfos :: "TableInfo list"
  columns :: "ColumnInfo list"
  indexes :: "IndexInfo list"
  primaryKeys :: "PrimaryKeyInfo list"
  views :: "ViewInfo list"

section \<open>Metadata normalizer: the built model\<close>

record FieldType =
  type_id :: jsstring
  type_name :: jsstring

record DBField =
  field_id :: jsstring
  field_name :: jsstring
  field_type :: FieldType
  primaryKey :: bool
  unique :: bool
  nullable :: bool
  character_maximum_length :: "jsstring option"
  precision :: "int option"
  scale :: "int option"
  field_default :: "jsstring option"
  collation :: "jsstring option"
  field_createdAt :: int
  field_comments :: "jsstring option"

record DBIndex =
  index_id :: jsstring
  index_name :: jsstring
  index_unique :: bool
  fieldIds :: "jsstring list"
  index_createdAt :: int

record DBTable =
  table_id :: jsstring
  table_name :: jsstring
  table_schema :: "jsstring option"
  table_x :: real
  table_y :: real
  table_fields :: "DBField list"
  table_indexes :: "DBIndex list"
  color :: jsstring
  isView :: bool
  createdAt :: int
  width :: "real option"
  comments :: "jsstring option"
  hidden :: "bool option"
  auditable :: bool
  revisionEnabled :: bool

section \<open>Ambient primitives\<close>

text \<open>
  \<open>generateId()\<close>, \<open>Date.now()\<close>, \<open>Math.random()\<close> and \<open>randomColor()\<close> read the environment.
  The environment is a record of four answer functions and the constant \<open>greyColor\<close>; the
  state threaded through the normalizer is the number of ambient calls made so far, and the
  \<open>n\<close>-th ambient call gets the answer at \<open>n\<close>. Any sequence of answers is such an
  environment.
\<close>

record Env =
  generateId :: "nat \<Rightarrow> jsstring"
  Date_now :: "nat \<Rightarrow> int"
  Math_random :: "nat \<Rightarrow> real"
  randomColor :: "nat \<Rightarrow> jsstring"
  greyColor :: jsstring

section \<open>JavaScript helpers\<close>

text \<open>JavaScript truthiness of an optional string: \<open>undefined\<close> and \<open>''\<close> are falsy.\<close>

definition truthy :: "jsstring option \<Rightarrow> bool" where
  "truthy s = (case s of None \<Rightarrow> False | Some t \<Rightarrow> t \<noteq> [])"

text \<open>Truthiness of an optional number: \<open>undefined\<close> and \<open>0\<close> are falsy.\<close>

definition truthyNum :: "int option \<Rightarrow> bool" where
  "truthyNum n = (case n of None \<Rightarrow> False | Some k \<Rightarrow> k \<noteq> 0)"

text \<open>
  \<open>String.prototype.trim\<close> removes, at both ends, the code units of the grammar's
  \<open>WhiteSpace\<close> and \<open>LineTerminator\<close>: tab, line feed, vertical tab, form feed, carriage
  return, space, U+00A0, U+1680, U+2000 to U+200A, U+2028, U+2029, U+202F, U+205F, U+3000
  and U+FEFF.
\<close>

definition isWhiteSpace :: "code_unit \<Rightarrow> bool" where
  "isWhiteSpace c =
     (c \<in> set [0x09, 0x0A, 0x0B, 0x0C, 0x0D, 0x20, 0xA0, 0x1680, 0x2028, 0x2029, 0x202F,
               0x205F, 0x3000, 0xFEFF]
      \<or> (0x2000 \<le> c \<and> c \<le> 0x200A))"

definition trim :: "jsstring \<Rightarrow> jsstring" where
  "trim s = rev (dropWhile isWhiteSpace (rev (dropWhile isWhiteSpace s)))"

text \<open>\<open>s.split(' ').join('_')\<close>: every space (0x20) becomes an underscore (0x5F).\<close>

definition split_join :: "jsstring \<Rightarrow> jsstring" where
  "split_join s = map (\<lambda>c. if c = 0x20 then 0x5F else c) s"

text \<open>
  Modelled from the spec: \<open>schemaNameToDomainSchemaName\<close> lives in \<open>./db-schema\<close>, which is
  not among the sources. The spec: normalization ``must map a source-reported "no
  schema"/empty value to a single canonical absent-schema representation''; every other
  schema name is its own normal form.
\<close>

definition schemaNameToDomainSchemaName :: "jsstring option \<Rightarrow> jsstring option" where
  "schemaNameToDomainSchemaName schema =
     (case schema of None \<Rightarrow> None | Some s \<Rightarrow> if s = [] then None else Some s)"

section \<open>createTablesFromMetadata\<close>

subsection \<open>Column selection, deduplication and ordering\<close>

definition matchingColumns :: "Metadata \<Rightarrow> TableInfo \<Rightarrow> ColumnInfo list" where
  "matchingColumns md tableInfo =
     filter (\<lambda>col. schemaNameToDomainSchemaName (col_schema col)
                      = schemaNameToDomainSchemaName (ti_schema tableInfo)
                  \<and> col_table col = ti_table tableInfo)
            (columns md)"

text \<open>
  \<open>uniqueColumns\<close> is a \<open>Map<string, ColumnInfo>\<close>: an association list in insertion
  order. The \<open>forEach\<close> body sets a key only when \<open>has\<close> is false, so it appends.
\<close>

definition uniqueColumns_step ::
  "(jsstring \<times> ColumnInfo) list \<Rightarrow> ColumnInfo \<Rightarrow> (jsstring \<times> ColumnInfo) list" where
  "uniqueColumns_step m col =
     (if col_name col \<notin> fst ` set m then m @ [(col_name col, col)] else m)"

definition uniqueColumns :: "Metadata \<Rightarrow> TableInfo \<Rightarrow> (jsstring \<times> ColumnInfo) list" where
  "uniqueColumns md tableInfo = foldl uniqueColumns_step [] (matchingColumns md tableInfo)"

text \<open>
  \<open>Array.from(uniqueColumns.values()).sort((a, b) => a.ordinal_position - b.ordinal_position)\<close>;
  \<open>Array.prototype.sort\<close> is stable, as \<open>sort_key\<close> is.
\<close>

definition sortedColumns :: "Metadata \<Rightarrow> TableInfo \<Rightarrow> ColumnInfo list" where
  "sortedColumns md tableInfo = sort_key ordinal_position (map snd (uniqueColumns md tableInfo))"

subsection \<open>Primary keys and indexes of one table\<close>

definition tablePrimaryKeys :: "Metadata \<Rightarrow> TableInfo \<Rightarrow> jsstring list" where
  "tablePrimaryKeys md tableInfo =
     map (\<lambda>pk. trim (pk_column pk))
         (filter (\<lambda>pk. pk_table pk = ti_table tableInfo
                      \<and> schemaNameToDomainSchemaName (pk_schema pk)
                          = schemaNameToDomainSchemaName (ti_schema tableInfo))
                 (primaryKeys md))"

definition tableIndexes :: "Metadata \<Rightarrow> TableInfo \<Rightarrow> IndexInfo list" where
  "tableIndexes md tableInfo =
     filter (\<lambda>idx. idx_table idx = ti_table tableInfo
                  \<and> schemaNameToDomainSchemaName (idx_schema idx)
                      = schemaNameToDomainSchemaName (ti_schema tableInfo))
            (indexes md)"

text \<open>The template literal \<open>`${idx.schema}_${idx.name}`\<close>; \<open>undefined\<close> prints as \<open>undefined\<close>.\<close>

definition indexKey :: "IndexInfo \<Rightarrow> jsstring" where
  "indexKey idx =
     (case idx_schema idx of None \<Rightarrow> js ''undefined'' | Some s \<Rightarrow> s) @ js ''_'' @ idx_name idx"

text \<open>
  The accumulator of \<open>reduce\<close> starts as the object literal \<open>{}\<close>, whose prototype is
  \<open>Object.prototype\<close>. Its own properties are an association list in insertion order (no
  key is an integer index: every key contains \<open>_\<close>); an entry is the first row of its key
  (\<open>...idx\<close>) with the list \<open>columns\<close> of \<open>{name, position}\<close> pairs, an object and so truthy.
  \<open>acc[key]\<close> also finds inherited properties. Of the property names of \<open>Object.prototype\<close>
  the five below contain an underscore, as every key does; for them \<open>acc[key]\<close> is an
  object or a function with no \<open>columns\<close>, so \<open>!acc[key]\<close> is false and
  \<open>acc[key].columns.push(...)\<close> throws a \<open>TypeError\<close>.
\<close>

datatype normalizer_error = TypeError

definition inheritedKeys :: "jsstring list" where
  "inheritedKeys =
     [js ''__proto__'', js ''__defineGetter__'', js ''__defineSetter__'',
      js ''__lookupGetter__'', js ''__lookupSetter__'']"

record AggregatedIndex =
  agg_info :: IndexInfo
  agg_columns :: "(jsstring \<times> int) list"

definition aggregateStep ::
  "(jsstring \<times> AggregatedIndex) list \<Rightarrow> IndexInfo
     \<Rightarrow> normalizer_error + (jsstring \<times> AggregatedIndex) list" where
  "aggregateStep acc idx =
     (let key = indexKey idx in
      if key \<notin> fst ` set acc \<and> key \<notin> set inheritedKeys
      then Inr (acc @ [(key, \<lparr>agg_info = idx,
                               agg_columns = [(idx_column idx, column_position idx)]\<rparr>)])
      else if key \<in> fst ` set acc
      then Inr (map (\<lambda>(k, e). if k = key
                          then (k, e\<lparr>agg_columns := agg_columns e @ [(idx_column idx, column_position idx)]\<rparr>)
                          else (k, e)) acc)
      else Inl TypeError)"

text \<open>\<open>reduce\<close>: a throw in the callback ends it.\<close>

definition reduceStep ::
  "normalizer_error + (jsstring \<times> AggregatedIndex) list \<Rightarrow> IndexInfo
     \<Rightarrow> normalizer_error + (jsstring \<times> AggregatedIndex) list" where
  "reduceStep a idx = (case a of Inl e \<Rightarrow> Inl e | Inr acc \<Rightarrow> aggregateStep acc idx)"

definition aggregatedIndexes ::
  "Metadata \<Rightarrow> TableInfo \<Rightarrow> normalizer_error + (jsstring \<times> AggregatedIndex) list" where
  "aggregatedIndexes md tableInfo = foldl reduceStep (Inr []) (tableIndexes md tableInfo)"

definition Object_values :: "('k \<times> 'v) list \<Rightarrow> 'v list" where
  "Object_values obj = map snd obj"

subsection \<open>Fields\<close>

definition isSingleUniqueOn :: "jsstring \<Rightarrow> AggregatedIndex \<Rightarrow> bool" where
  "isSingleUniqueOn name idx =
     (idx_unique (agg_info idx) \<and> length (agg_columns idx) = 1
      \<and> (case agg_columns idx of [] \<Rightarrow> False | c # _ \<Rightarrow> fst c = name))"

definition mkField :: "Env \<Rightarrow> jsstring list \<Rightarrow> AggregatedIndex list \<Rightarrow> nat \<Rightarrow> ColumnInfo \<Rightarrow> DBField" where
  "mkField env pks aggs tick col =
     \<lparr>field_id = generateId env tick,
      field_name = col_name col,
      field_type = \<lparr>type_id = split_join (col_type col), type_name = col_type col\<rparr>,
      primaryKey = (col_name col \<in> set pks),
      unique = list_ex (isSingleUniqueOn (col_name col)) aggs,
      nullable = col_nullable col,
      character_maximum_length =
        (if truthy (col_character_maximum_length col)
            \<and> col_character_maximum_length col \<noteq> Some (js ''null'')
         then col_character_maximum_length col else None),
      precision =
        (case col_precision col of None \<Rightarrow> None
         | Some p \<Rightarrow> if truthyNum (p_precision p) then p_precision p else None),
      scale =
        (case col_precision col of None \<Rightarrow> None
         | Some p \<Rightarrow> if truthyNum (p_scale p) then p_scale p else None),
      field_default = (if truthy (col_default col) then col_default col else None),
      collation = (if truthy (col_collation col) then col_collation col else None),
      field_createdAt = Date_now env (tick + 1),
      field_comments = (if truthy (col_comment col) then col_comment col else None)\<rparr>"

text \<open>\<open>sortedColumns.map(...)\<close>: each field makes two ambient calls, in order.\<close>

fun mkFields :: "Env \<Rightarrow> jsstring list \<Rightarrow> AggregatedIndex list \<Rightarrow> nat \<Rightarrow> ColumnInfo list \<Rightarrow> DBField list" where
  "mkFields env pks aggs tick [] = []"
| "mkFields env pks aggs tick (col # cols) =
     mkField env pks aggs tick col # mkFields env pks aggs (tick + 2) cols"

subsection \<open>Indexes\<close>

text \<open>
  \<open>idx.columns.sort(by position).map(c => fields.find(f => f.name === c.name)?.id)
  .filter(id => id !== undefined)\<close>
\<close>

definition resolveFieldId :: "DBField list \<Rightarrow> jsstring \<times> int \<Rightarrow> jsstring option" where
  "resolveFieldId fs c = map_option field_id (find (\<lambda>f. field_name f = fst c) fs)"

definition mkIndex :: "Env \<Rightarrow> DBField list \<Rightarrow> nat \<Rightarrow> AggregatedIndex \<Rightarrow> DBIndex" where
  "mkIndex env fs tick idx =
     \<lparr>index_id = generateId env tick,
      index_name = idx_name (agg_info idx),
      index_unique = idx_unique (agg_info idx),
      fieldIds = List.map_filter (resolveFieldId fs) (sort_key snd (agg_columns idx)),
      index_createdAt = Date_now env (tick + 1)\<rparr>"

fun mkIndexes :: "Env \<Rightarrow> DBField list \<Rightarrow> nat \<Rightarrow> AggregatedIndex list \<Rightarrow> DBIndex list" where
  "mkIndexes env fs tick [] = []"
| "mkIndexes env fs tick (idx # idxs) = mkIndex env fs tick idx # mkIndexes env fs (tick + 2) idxs"

subsection \<open>One table, then all of them\<close>

definition tableIsView :: "Metadata \<Rightarrow> TableInfo \<Rightarrow> bool" where
  "tableIsView md tableInfo =
     list_ex (\<lambda>view. schemaNameToDomainSchemaName (view_schema view)
                       = schemaNameToDomainSchemaName (ti_schema tableInfo)
                   \<and> view_name view = ti_table tableInfo)
             (views md)"

text \<open>
  The body of the \<open>map\<close> callback after \<open>aggregatedIndexes\<close> has been computed; \<open>aggs\<close> is
  \<open>Object.values(aggregatedIndexes)\<close>.
\<close>

definition buildTable ::
  "Env \<Rightarrow> Metadata \<Rightarrow> nat \<Rightarrow> TableInfo \<Rightarrow> AggregatedIndex list \<Rightarrow> DBTable \<times> nat" where
  "buildTable env md tick tableInfo aggs =
     (let cols = sortedColumns md tableInfo;
          fs = mkFields env (tablePrimaryKeys md tableInfo) aggs tick cols;
          tick1 = tick + 2 * length cols;
          dbIndexes = mkIndexes env fs tick1 aggs;
          tick2 = tick1 + 2 * length aggs;
          view = tableIsView md tableInfo;
          tick3 = (if view then tick2 + 3 else tick2 + 4)
      in (\<lparr>table_id = generateId env tick2,
           table_name = ti_table tableInfo,
           table_schema = schemaNameToDomainSchemaName (ti_schema tableInfo),
           table_x = Math_random env (tick2 + 1) * 1000,
           table_y = Math_random env (tick2 + 2) * 800,
           table_fields = fs,
           table_indexes = dbIndexes,
           color = (if view then greyColor env else randomColor env (tick2 + 3)),
           isView = view,
           createdAt = Date_now env tick3,
           width = None,
           comments = (if truthy (ti_comment tableInfo) then ti_comment tableInfo else None),
           hidden = None,
           auditable = ti_auditable tableInfo,
           revisionEnabled = ti_revisionEnabled tableInfo\<rparr>,
          tick3 + 1))"

text \<open>The \<open>map\<close> callback: the aggregation runs before any ambient call and may throw.\<close>

definition createTable ::
  "Env \<Rightarrow> Metadata \<Rightarrow> nat \<Rightarrow> TableInfo \<Rightarrow> normalizer_error + (DBTable \<times> nat)" where
  "createTable env md tick tableInfo =
     (case aggregatedIndexes md tableInfo of
        Inl e \<Rightarrow> Inl e
      | Inr acc \<Rightarrow> Inr (buildTable env md tick tableInfo (Object_values acc)))"

text \<open>\<open>tableInfos.map(...)\<close>, in order; a throw in the callback ends it.\<close>

fun createTables ::
  "Env \<Rightarrow> Metadata \<Rightarrow> nat \<Rightarrow> TableInfo list \<Rightarrow> normalizer_error + (DBTable list \<times> nat)" where
  "createTables env md tick [] = Inr ([], tick)"
| "createTables env md tick (tableInfo # rest) =
     (case createTable env md tick tableInfo of
        Inl e \<Rightarrow> Inl e
      | Inr (t, tick1) \<Rightarrow>
          (case createTables env md tick1 rest of
             Inl e \<Rightarrow> Inl e
           | Inr (ts, tick2) \<Rightarrow> Inr (t # ts, tick2)))"

definition createTablesFromMetadata ::
  "Env \<Rightarrow> Metadata \<Rightarrow> nat \<Rightarrow> normalizer_error + (DBTable list \<times> nat)" where
  "createTablesFromMetadata env md tick = createTables env md tick (tableInfos md)"

subsection \<open>The spec's reading of deduplication and grouping\<close>

text \<open>
  ``Deduplicate by key, keeping the first occurrence encountered'': the head stays, every
  later element with the head's key goes.
\<close>

fun firstsBy :: "('a \<Rightarrow> 'k) \<Rightarrow> 'a list \<Rightarrow> 'a list" where
  "firstsBy k [] = []"
| "firstsBy k (a # as) = a # firstsBy k (filter (\<lambda>b. k b \<noteq> k a) as)"

text \<open>
  The spec: a column, index row, primary key or view belongs to a table descriptor when its
  ``(normalized schema, table name) matches the table descriptor''.
\<close>

definition describes :: "TableInfo \<Rightarrow> jsstring option \<Rightarrow> jsstring \<Rightarrow> bool" where
  "describes tableInfo schema table =
     (schemaNameToDomainSchemaName schema = schemaNameToDomainSchemaName (ti_schema tableInfo)
      \<and> table = ti_table tableInfo)"

text \<open>
  The spec's field order: the columns of the raw input that belong to the descriptor,
  deduplicated by name keeping the first, then sorted ascending by ordinal position.
\<close>

definition specColumns :: "Metadata \<Rightarrow> TableInfo \<Rightarrow> ColumnInfo list" where
  "specColumns md tableInfo =
     sort_key ordinal_position
       (firstsBy col_name
          (filter (\<lambda>c. describes tableInfo (col_schema c) (col_table c)) (columns md)))"

text \<open>
  The spec's grouping: the raw index rows that belong to the descriptor, grouped by the
  ``composite tuple (schema, index name)''; one group per distinct pair, in the order of
  first occurrence, holding its first row and the \<open>{name, position}\<close> of each of its rows in
  raw order.
\<close>

definition indexPair :: "IndexInfo \<Rightarrow> jsstring option \<times> jsstring" where
  "indexPair idx = (idx_schema idx, idx_name idx)"

definition specIndexRows :: "Metadata \<Rightarrow> TableInfo \<Rightarrow> IndexInfo list" where
  "specIndexRows md tableInfo =
     filter (\<lambda>r. describes tableInfo (idx_schema r) (idx_table r)) (indexes md)"

definition colOf :: "IndexInfo \<Rightarrow> jsstring \<times> int" where
  "colOf idx = (idx_column idx, column_position idx)"

definition groupOf :: "(IndexInfo \<Rightarrow> 'k) \<Rightarrow> IndexInfo list \<Rightarrow> IndexInfo \<Rightarrow> AggregatedIndex" where
  "groupOf k rows r = \<lparr>agg_info = r, agg_columns = map colOf (filter (\<lambda>q. k q = k r) rows)\<rparr>"

definition specIndexGroups :: "Metadata \<Rightarrow> TableInfo \<Rightarrow> AggregatedIndex list" where
  "specIndexGroups md tableInfo =
     map (groupOf indexPair (specIndexRows md tableInfo))
         (firstsBy indexPair (specIndexRows md tableInfo))"

text \<open>The inputs on which no aggregation meets an inherited property name.\<close>

definition ownKeysOnly :: "Metadata \<Rightarrow> bool" where
  "ownKeysOnly md =
     (\<forall>tableInfo \<in> set (tableInfos md). \<forall>r \<in> set (indexes md).
        describes tableInfo (idx_schema r) (idx_table r) \<longrightarrow> indexKey r \<notin> set inheritedKeys)"

section \<open>adjustTablePositions\<close>

subsection \<open>Relationships and the working copy\<close>

text \<open>
  \<open>DBRelationship\<close> is imported by the source; the layout reads \<open>sourceTableId\<close> and
  \<open>targetTableId\<close> only. The other fields are the ones the spec lists.
\<close>

datatype Cardinality = One | Many

record DBRelationship =
  rel_id :: jsstring
  sourceTableId :: jsstring
  targetTableId :: jsstring
  sourceFieldId :: jsstring
  targetFieldId :: jsstring
  sourceCardinality :: Cardinality
  targetCardinality :: Cardinality

text \<open>
  Modelled from the spec: \<open>deepCopy\<close> lives in \<open>../utils\<close>, which is not among the sources.
  The spec: ``operate on a defensive deep copy of tables and relationships''. A deep copy
  has the value of its argument and shares nothing with it; in this embedding arguments are
  values, so the copy is the argument.
\<close>

definition deepCopy :: "'a \<Rightarrow> 'a" where
  "deepCopy v = v"

definition filteredRelationships :: "DBTable list \<Rightarrow> DBRelationship list \<Rightarrow> DBRelationship list" where
  "filteredRelationships tabs rels =
     filter (\<lambda>rel. list_ex (\<lambda>t. table_id t = sourceTableId rel) tabs
                  \<and> list_ex (\<lambda>t. table_id t = targetTableId rel) tabs) rels"

subsection \<open>Geometry constants\<close>

definition tableWidth :: real where "tableWidth = 200"
definition tableHeight :: real where "tableHeight = 300"
definition gapX :: real where "gapX = 100"
definition gapY :: real where "gapY = 100"
definition startX :: real where "startX = 100"
definition startY :: real where "startY = 100"

subsection \<open>Connections\<close>

text \<open>
  \<open>tableConnections\<close> is a \<open>Map<string, Set<string>>\<close>, read by key only: a map from ids to
  the neighbour set, a duplicate-free list in insertion order (\<open>forEach\<close> walks it in that
  order). \<open>Set.add\<close> changes the set the map holds.
\<close>

type_synonym connections = "jsstring \<rightharpoonup> jsstring list"

definition Set_add :: "jsstring \<Rightarrow> jsstring list \<Rightarrow> jsstring list" where
  "Set_add v s = (if v \<in> set s then s else s @ [v])"

definition ensureKey :: "jsstring \<Rightarrow> connections \<Rightarrow> connections" where
  "ensureKey k m = (if m k = None then m(k \<mapsto> []) else m)"

text \<open>
  \<open>tableConnections.get(k)!.add(v)\<close>. The key is present, \<open>ensureKey\<close> having run; where
  it is absent the map is left as it is.
\<close>

definition addNeighbour :: "jsstring \<Rightarrow> jsstring \<Rightarrow> connections \<Rightarrow> connections" where
  "addNeighbour k v m = (case m k of None \<Rightarrow> m | Some s \<Rightarrow> m(k \<mapsto> Set_add v s))"

definition addRelationship :: "connections \<Rightarrow> DBRelationship \<Rightarrow> connections" where
  "addRelationship m rel =
     addNeighbour (targetTableId rel) (sourceTableId rel)
       (addNeighbour (sourceTableId rel) (targetTableId rel)
          (ensureKey (targetTableId rel) (ensureKey (sourceTableId rel) m)))"

definition tableConnections :: "DBRelationship list \<Rightarrow> connections" where
  "tableConnections rels = foldl addRelationship Map.empty rels"

text \<open>\<open>tableConnections.get(id)?.size || 0\<close>\<close>

definition connectionCount :: "connections \<Rightarrow> jsstring \<Rightarrow> nat" where
  "connectionCount m k = (case m k of None \<Rightarrow> 0 | Some s \<Rightarrow> length s)"

text \<open>
  \<open>sortedTables\<close> holds the table objects of the working copy, most connected first. An
  object is named by its index in \<open>tables\<close>; \<open>Array.prototype.sort\<close> is stable.
\<close>

definition sortedTables :: "connections \<Rightarrow> DBTable list \<Rightarrow> nat list" where
  "sortedTables m tabs =
     sort_key (\<lambda>i. - int (connectionCount m (table_id (tabs ! i)))) [0..<length tabs]"

subsection \<open>The layout state\<close>

text \<open>
  The variables in scope of the closures. \<open>callerTables\<close> and \<open>callerRelationships\<close> are the
  arrays the caller passed (\<open>inputTables\<close>, \<open>inputRelationships\<close>) with their objects;
  \<open>tables\<close> is the deep copy, whose objects \<open>positionTable\<close> writes; \<open>positionedTables\<close>
  is a \<open>Set\<close> and \<open>tablePositions\<close> a \<open>Map\<close> in insertion order. \<open>capReached\<close> is a history
  variable, not in the source and read by no operation: the ids whose spiral search left
  its loop by the iteration cap.
\<close>

type_synonym position = "real \<times> real"

record LayoutState =
  callerTables :: "DBTable list"
  callerRelationships :: "DBRelationship list"
  tables :: "DBTable list"
  positionedTables :: "jsstring set"
  tablePositions :: "(jsstring \<times> position) list"
  capReached :: "jsstring set"

fun Map_set :: "jsstring \<Rightarrow> position \<Rightarrow> (jsstring \<times> position) list \<Rightarrow> (jsstring \<times> position) list" where
  "Map_set k v [] = [(k, v)]"
| "Map_set k v (e # es) = (if fst e = k then (k, v) # es else e # Map_set k v es)"

definition overlaps :: "position \<Rightarrow> position \<Rightarrow> bool" where
  "overlaps p q =
     (\<bar>fst p - fst q\<bar> < tableWidth + gapX \<and> \<bar>snd p - snd q\<bar> < tableHeight + gapY)"

definition isOverlapping :: "(jsstring \<times> position) list \<Rightarrow> real \<Rightarrow> real \<Rightarrow> jsstring \<Rightarrow> bool" where
  "isOverlapping tp px py currentTableId =
     list_ex (\<lambda>(tableId, pos). tableId \<noteq> currentTableId \<and> overlaps (px, py) pos) tp"

subsection \<open>The spiral search\<close>

definition maxIterations :: nat where "maxIterations = 1000"

definition spiralStep :: real where "spiralStep = max tableWidth tableHeight / 2"

text \<open>
  The \<open>while\<close> loop of \<open>findNonOverlappingPosition\<close>, from the values of \<open>angle\<close>,
  \<open>radius\<close> and \<open>iterations\<close>. It ends by the \<open>return\<close> in its body (\<open>Found\<close>) or by the
  cap, after which the function returns the point at the current \<open>angle\<close> and \<open>radius\<close>
  (\<open>CapReached\<close>). Numbers are reals and \<open>Math.cos\<close>, \<open>Math.sin\<close>, \<open>Math.PI\<close> are \<open>cos\<close>,
  \<open>sin\<close>, \<open>pi\<close>. The test \<open>angle >= 2 * Math.PI\<close> comes out the same in double
  precision: the sums of up to eight \<open>Math.PI / 4\<close> are exact there, and the eighth is
  \<open>2 * Math.PI\<close>.
\<close>

datatype search_result = Found position | CapReached position

function spiral ::
  "(jsstring \<times> position) list \<Rightarrow> real \<Rightarrow> real \<Rightarrow> jsstring \<Rightarrow> real \<Rightarrow> real \<Rightarrow> nat \<Rightarrow> search_result" where
  "spiral tp baseX baseY tableId angle radius iterations =
     (if iterations < maxIterations then
        (if \<not> isOverlapping tp (baseX + radius * cos angle) (baseY + radius * sin angle) tableId
         then Found (baseX + radius * cos angle, baseY + radius * sin angle)
         else if angle + pi / 4 \<ge> 2 * pi
              then spiral tp baseX baseY tableId 0 (radius + spiralStep) (iterations + 1)
              else spiral tp baseX baseY tableId (angle + pi / 4) radius (iterations + 1))
      else CapReached (baseX + radius * cos angle, baseY + radius * sin angle))"
  by pat_completeness auto
termination
  by (relation "measure (\<lambda>(tp, baseX, baseY, tableId, angle, radius, iterations).
                           maxIterations - iterations)") auto

declare spiral.simps [simp del]

fun resultPosition :: "search_result \<Rightarrow> position" where
  "resultPosition (Found p) = p"
| "resultPosition (CapReached p) = p"

fun isCapReached :: "search_result \<Rightarrow> bool" where
  "isCapReached (Found p) = False"
| "isCapReached (CapReached p) = True"

definition findNonOverlappingPosition ::
  "(jsstring \<times> position) list \<Rightarrow> real \<Rightarrow> real \<Rightarrow> jsstring \<Rightarrow> position" where
  "findNonOverlappingPosition tp baseX baseY tableId =
     resultPosition (spiral tp baseX baseY tableId 0 0 0)"

subsection \<open>Placing a table and its neighbours\<close>

text \<open>\<open>tables.find((t) => t.id === connectedTableId)\<close>, as the index of the object found.\<close>

fun findIndex :: "('a \<Rightarrow> bool) \<Rightarrow> 'a list \<Rightarrow> nat option" where
  "findIndex P [] = None"
| "findIndex P (a # as) = (if P a then Some 0 else map_option Suc (findIndex P as))"

text \<open>The state after \<open>positionTable\<close> has placed the object at index \<open>i\<close>, before its loop.\<close>

definition place :: "nat \<Rightarrow> real \<Rightarrow> real \<Rightarrow> LayoutState \<Rightarrow> LayoutState" where
  "place i baseX baseY s =
     (let tid = table_id (tables s ! i);
          r = spiral (tablePositions s) baseX baseY tid 0 0 0;
          p = resultPosition r
      in s\<lparr>tables := (tables s)[i := (tables s ! i)\<lparr>table_x := fst p, table_y := snd p\<rparr>],
           tablePositions := Map_set tid p (tablePositions s),
           positionedTables := insert tid (positionedTables s),
           capReached := (if isCapReached r then insert tid (capReached s) else capReached s)\<rparr>)"

definition connectedTables :: "connections \<Rightarrow> jsstring \<Rightarrow> jsstring list" where
  "connectedTables m tid = (case m tid of None \<Rightarrow> [] | Some s \<Rightarrow> s)"

text \<open>
  \<open>positionTable\<close> calls itself inside the \<open>forEach\<close> over the neighbours. The first
  argument bounds the depth of these calls: \<open>positionTable\<close> returns \<open>None\<close> when the bound
  is used up. \<open>placeConnected\<close> is the \<open>forEach\<close>, from the neighbours left to visit and the
  value of \<open>angle\<close>; \<open>px\<close>, \<open>py\<close> are the position of the table whose neighbours they are.
  \<open>positionTable\<close> is applied to indices of \<open>tables\<close> only.
\<close>

function positionTable ::
    "nat \<Rightarrow> connections \<Rightarrow> nat \<Rightarrow> real \<Rightarrow> real \<Rightarrow> LayoutState \<Rightarrow> LayoutState option"
  and placeConnected ::
    "nat \<Rightarrow> connections \<Rightarrow> real \<Rightarrow> real \<Rightarrow> real \<Rightarrow> jsstring list \<Rightarrow> real \<Rightarrow> LayoutState
       \<Rightarrow> LayoutState option" where
  "positionTable 0 m i baseX baseY s = None"
| "positionTable (Suc depth) m i baseX baseY s =
     (if table_id (tables s ! i) \<in> positionedTables s then Some s
      else let tid = table_id (tables s ! i);
               p = findNonOverlappingPosition (tablePositions s) baseX baseY tid;
               connected = connectedTables m tid;
               angleStep = 2 * pi / real (length connected)
           in placeConnected depth m (fst p) (snd p) angleStep connected 0 (place i baseX baseY s))"
| "placeConnected depth m px py angleStep [] angle s = Some s"
| "placeConnected depth m px py angleStep (connectedTableId # rest) angle s =
     (if connectedTableId \<notin> positionedTables s then
        (case findIndex (\<lambda>t. table_id t = connectedTableId) (tables s) of
           Some j \<Rightarrow>
             (case positionTable depth m j
                     (px + cos angle * (tableWidth + gapX * 2))
                     (py + sin angle * (tableHeight + gapY * 2)) s of
                None \<Rightarrow> None
              | Some s' \<Rightarrow> placeConnected depth m px py angleStep rest (angle + angleStep) s')
         | None \<Rightarrow> placeConnected depth m px py angleStep rest angle s)
      else placeConnected depth m px py angleStep rest angle s)"
  by pat_completeness auto
termination
  by (relation "inv_image (less_than <*lex*> less_than)
        (\<lambda>a. case a of
           Inl (depth, m, i, baseX, baseY, s) \<Rightarrow> (depth, 0)
         | Inr (depth, m, px, py, angleStep, ids, angle, s) \<Rightarrow> (depth, Suc (length ids)))")
     auto

subsection \<open>Seeding and the result\<close>

definition seedPosition :: "nat \<Rightarrow> position" where
  "seedPosition index =
     (startX + real (index mod 6) * (tableWidth + gapX * 2),
      startY + real (index div 6) * (tableHeight + gapY * 2))"

text \<open>
  \<open>sortedTables.forEach((table, index) => ...)\<close>, from the index reached and the objects
  left. Each call of \<open>positionTable\<close> made here may nest as deep as \<open>depth\<close>.
\<close>

fun seedTables :: "nat \<Rightarrow> connections \<Rightarrow> nat \<Rightarrow> nat list \<Rightarrow> LayoutState \<Rightarrow> LayoutState option" where
  "seedTables depth m index [] s = Some s"
| "seedTables depth m index (i # rest) s =
     (if table_id (tables s ! i) \<notin> positionedTables s then
        (case positionTable depth m i (fst (seedPosition index)) (snd (seedPosition index)) s of
           None \<Rightarrow> None
         | Some s' \<Rightarrow> seedTables depth m (Suc index) rest s')
      else seedTables depth m (Suc index) rest s)"

text \<open>\<open>tables.forEach\<close>: every table whose id has a position takes it.\<close>

definition applyPositions :: "LayoutState \<Rightarrow> LayoutState" where
  "applyPositions s =
     s\<lparr>tables := map (\<lambda>t. case map_of (tablePositions s) (table_id t) of
                            Some p \<Rightarrow> t\<lparr>table_x := fst p, table_y := snd p\<rparr>
                          | None \<Rightarrow> t)
                      (tables s)\<rparr>"

definition initialState :: "DBTable list \<Rightarrow> DBRelationship list \<Rightarrow> LayoutState" where
  "initialState inputTables inputRelationships =
     \<lparr>callerTables = inputTables, callerRelationships = inputRelationships,
      tables = deepCopy inputTables, positionedTables = {}, tablePositions = [],
      capReached = {}\<rparr>"

text \<open>
  The whole function, with the final state kept. A nest of \<open>positionTable\<close> calls places
  a new table at each level, so \<open>depth\<close> is one more than the number of tables.
\<close>

definition layoutWithin :: "nat \<Rightarrow> DBTable list \<Rightarrow> DBRelationship list \<Rightarrow> LayoutState option" where
  "layoutWithin depth inputTables inputRelationships =
     (let s = initialState inputTables inputRelationships;
          relationships = deepCopy inputRelationships;
          m = tableConnections (filteredRelationships (tables s) relationships)
      in map_option applyPositions (seedTables depth m 0 (sortedTables m (tables s)) s))"

definition layout :: "DBTable list \<Rightarrow> DBRelationship list \<Rightarrow> LayoutState option" where
  "layout inputTables inputRelationships =
     layoutWithin (Suc (length inputTables)) inputTables inputRelationships"

definition adjustTablePositions :: "DBTable list \<Rightarrow> DBRelationship list \<Rightarrow> DBTable list option" where
  "adjustTablePositions inputTables inputRelationships =
     map_option tables (layout inputTables inputRelationships)"

text \<open>
  The values of \<open>angle\<close> and \<open>radius\<close> when \<open>iterations\<close> is \<open>n\<close> and every earlier point
  overlapped, and the point tested then: eight points to a turn, the radius growing by
  \<open>spiralStep\<close> after each turn.
\<close>

definition spiralAngle :: "nat \<Rightarrow> real" where
  "spiralAngle n = real (n mod 8) * (pi / 4)"

definition spiralRadius :: "nat \<Rightarrow> real" where
  "spiralRadius n = real (n div 8) * spiralStep"

definition spiralPoint :: "real \<Rightarrow> real \<Rightarrow> nat \<Rightarrow> position" where
  "spiralPoint baseX baseY n =
     (baseX + spiralRadius n * cos (spiralAngle n), baseY + spiralRadius n * sin (spiralAngle n))"

definition overlapsAt :: "(jsstring \<times> position) list \<Rightarrow> real \<Rightarrow> real \<Rightarrow> jsstring \<Rightarrow> nat \<Rightarrow> bool" where
  "overlapsAt tp baseX baseY tableId n =
     isOverlapping tp (fst (spiralPoint baseX baseY n)) (snd (spiralPoint baseX baseY n)) tableId"

text \<open>A table with its position blanked: what the layout must leave as it was.\<close>

definition unplaced :: "DBTable \<Rightarrow> DBTable" where
  "unplaced t = t\<lparr>table_x := 0, table_y := 0\<rparr>"

text \<open>
  The same, field by field: an output table against the input table it stands for. Every
  field of \<open>DBTable\<close> but \<open>x\<close> and \<open>y\<close> is listed.
\<close>

definition sameButPosition :: "DBTable \<Rightarrow> DBTable \<Rightarrow> bool" where
  "sameButPosition out inp =
     (table_id out = table_id inp \<and> table_name out = table_name inp
      \<and> table_schema out = table_schema inp \<and> table_fields out = table_fields inp
      \<and> table_indexes out = table_indexes inp \<and> color out = color inp
      \<and> isView out = isView inp \<and> createdAt out = createdAt inp
      \<and> width out = width inp \<and> comments out = comments inp \<and> hidden out = hidden inp
      \<and> auditable out = auditable inp \<and> revisionEnabled out = revisionEnabled inp)"

text \<open>
  The seed cell as the spec words it, cells ``spaced by footprint+gap'': one gap between
  neighbouring cells. \<open>seedPosition\<close> above is the cell of the source, which adds the gap
  twice.
\<close>

definition specSeedPosition :: "nat \<Rightarrow> position" where
  "specSeedPosition index =
     (startX + real (index mod 6) * (tableWidth + gapX),
      startY + real (index div 6) * (tableHeight + gapY))"

subsection \<open>Invariants of the layout state\<close>

text \<open>
  The keys of \<open>tablePositions\<close> are the placed ids, each once; two entries with distinct
  ids overlap only if the search of one of them ended by the cap.
\<close>

definition keysPlaced :: "LayoutState \<Rightarrow> bool" where
  "keysPlaced s = (fst ` set (tablePositions s) = positionedTables s)"

definition separated :: "LayoutState \<Rightarrow> bool" where
  "separated s =
     (\<forall>e \<in> set (tablePositions s). \<forall>e' \<in> set (tablePositions s).
        fst e \<noteq> fst e' \<longrightarrow> overlaps (snd e) (snd e')
          \<longrightarrow> fst e \<in> capReached s \<or> fst e' \<in> capReached s)"

definition wf :: "LayoutState \<Rightarrow> bool" where
  "wf s = (keysPlaced s \<and> distinct (map fst (tablePositions s)) \<and> separated s)"

text \<open>
  What a later state keeps of an earlier one: the caller's arrays, the placed ids and
  their positions, the tables but for their coordinates, the ids that reached the cap.
\<close>

definition extends :: "LayoutState \<Rightarrow> LayoutState \<Rightarrow> bool" where
  "extends s s' =
     (callerTables s' = callerTables s \<and> callerRelationships s' = callerRelationships s
      \<and> positionedTables s \<subseteq> positionedTables s'
      \<and> map unplaced (tables s') = map unplaced (tables s)
      \<and> (\<forall>k \<in> positionedTables s. map_of (tablePositions s') k = map_of (tablePositions s) k)
      \<and> capReached s \<subseteq> capReached s')"

definition unplacedIds :: "LayoutState \<Rightarrow> jsstring set" where
  "unplacedIds s = table_id ` set (tables s) - positionedTables s"

section \<open>Projections used in the statements\<close>

text \<open>What a field keeps of the column row it was built from, and what that row holds.\<close>

definition fieldOrigin :: "DBField \<Rightarrow> jsstring \<times> jsstring \<times> bool" where
  "fieldOrigin f = (field_name f, type_name (field_type f), nullable f)"

definition columnOrigin :: "ColumnInfo \<Rightarrow> jsstring \<times> jsstring \<times> bool" where
  "columnOrigin c = (col_name c, col_type c, col_nullable c)"

text \<open>The name, uniqueness and field ids of a built index, and the same of a group of rows.\<close>

definition indexShape :: "DBIndex \<Rightarrow> jsstring \<times> bool \<times> jsstring list" where
  "indexShape i = (index_name i, index_unique i, fieldIds i)"

definition groupShape :: "DBField list \<Rightarrow> AggregatedIndex \<Rightarrow> jsstring \<times> bool \<times> jsstring list" where
  "groupShape fs g =
     (idx_name (agg_info g), idx_unique (agg_info g),
      List.map_filter (resolveFieldId fs) (sort_key snd (agg_columns g)))"

text \<open>What a table carries of its descriptor, and what the descriptor gives.\<close>

definition carried :: "DBTable \<Rightarrow> jsstring \<times> jsstring option \<times> jsstring option \<times> bool \<times> bool" where
  "carried t = (table_name t, table_schema t, comments t, auditable t, revisionEnabled t)"

definition described :: "TableInfo \<Rightarrow> jsstring \<times> jsstring option \<times> jsstring option \<times> bool \<times> bool" where
  "described ti =
     (ti_table ti, schemaNameToDomainSchemaName (ti_schema ti),
      (if truthy (ti_comment ti) then ti_comment ti else None),
      ti_auditable ti, ti_revisionEnabled ti)"

section \<open>Example inputs\<close>

text \<open>
  The descriptor of table \<open>t\<close> with no schema and the empty comment; columns, index rows
  and primary keys of a given schema and table; an environment whose \<open>n\<close>-th id is \<open>n + 1\<close>
  letters \<open>i\<close>.
\<close>

definition exTable :: TableInfo where
  "exTable = \<lparr>ti_schema = None, ti_table = js ''t'', ti_comment = Some [],
               ti_auditable = True, ti_revisionEnabled = False\<rparr>"

definition exCol :: "jsstring option \<Rightarrow> jsstring \<Rightarrow> jsstring \<Rightarrow> int \<Rightarrow> jsstring \<Rightarrow> ColumnInfo" where
  "exCol sch tbl n pos ty =
     \<lparr>col_schema = sch, col_table = tbl, col_name = n, ordinal_position = pos,
      col_type = ty, col_nullable = False, col_character_maximum_length = None,
      col_precision = None, col_default = None, col_collation = None, col_comment = None\<rparr>"

definition exIdx :: "jsstring option \<Rightarrow> jsstring \<Rightarrow> jsstring \<Rightarrow> bool \<Rightarrow> jsstring \<Rightarrow> int \<Rightarrow> IndexInfo" where
  "exIdx sch tbl n u c pos =
     \<lparr>idx_schema = sch, idx_table = tbl, idx_name = n, idx_unique = u,
      idx_column = c, column_position = pos\<rparr>"

definition exPk :: "jsstring option \<Rightarrow> jsstring \<Rightarrow> jsstring \<Rightarrow> PrimaryKeyInfo" where
  "exPk sch tbl c = \<lparr>pk_schema = sch, pk_table = tbl, pk_column = c\<rparr>"

definition exMd :: "ColumnInfo list \<Rightarrow> IndexInfo list \<Rightarrow> PrimaryKeyInfo list \<Rightarrow> Metadata" where
  "exMd cols idxs pks =
     \<lparr>tableInfos = [exTable], columns = cols, indexes = idxs, primaryKeys = pks, views = []\<rparr>"

definition exEnv :: Env where
  "exEnv = \<lparr>generateId = (\<lambda>n. js (replicate (Suc n) CHR ''i'')), Date_now = int,
             Math_random = (\<lambda>n. 0), randomColor = (\<lambda>n. js ''#000000''),
             greyColor = js ''#999999''\<rparr>"

text \<open>The tables of a result; none when \<open>createTablesFromMetadata\<close> threw.\<close>

definition tablesOf :: "normalizer_error + (DBTable list \<times> nat) \<Rightarrow> DBTable list" where
  "tablesOf r = (case r of Inl e \<Rightarrow> [] | Inr (ts, tick) \<Rightarrow> ts)"

text \<open>
  Columns \<open>c\<close>, \<open>a\<close>, \<open>b\<close> of table \<open>t\<close> with ordinal positions 3, 1, 2, among a column of
  another table and a column of another schema; \<open>a\<close> comes with the empty schema, which
  normalizes to the absent one.
\<close>

definition exOrderCols :: "ColumnInfo list" where
  "exOrderCols =
     [exCol None (js ''t'') (js ''c'') 3 (js ''int''),
      exCol None (js ''u'') (js ''z'') 0 (js ''int''),
      exCol (Some []) (js ''t'') (js ''a'') 1 (js ''int''),
      exCol (Some (js ''s'')) (js ''t'') (js ''w'') 0 (js ''int''),
      exCol None (js ''t'') (js ''b'') 2 (js ''int'')]"

text \<open>Two rows named \<open>a\<close> of table \<open>t\<close>, after a row named \<open>a\<close> of another table.\<close>

definition exDupCols :: "ColumnInfo list" where
  "exDupCols =
     [exCol None (js ''u'') (js ''a'') 0 (js ''bool''),
      exCol None (js ''t'') (js ''a'') 5 (js ''int''),
      exCol None (js ''t'') (js ''a'') 1 (js ''text'')]"

text \<open>
  A two-column unique index over \<open>(x, y)\<close> and a one-column unique index over \<open>z\<close> of table
  \<open>t\<close>; a one-column unique index over \<open>y\<close> of another table and one over \<open>x\<close> of another
  schema.
\<close>

definition exUniqueCols :: "ColumnInfo list" where
  "exUniqueCols =
     [exCol None (js ''t'') (js ''x'') 1 (js ''int''),
      exCol None (js ''t'') (js ''y'') 2 (js ''int''),
      exCol None (js ''t'') (js ''z'') 3 (js ''int'')]"

definition exUniqueIdxs :: "IndexInfo list" where
  "exUniqueIdxs =
     [exIdx None (js ''t'') (js ''ixy'') True (js ''x'') 1,
      exIdx None (js ''u'') (js ''iq'') True (js ''y'') 1,
      exIdx None (js ''t'') (js ''ixy'') True (js ''y'') 2,
      exIdx (Some (js ''s'')) (js ''t'') (js ''ir'') True (js ''x'') 1,
      exIdx None (js ''t'') (js ''iz'') True (js ''z'') 1]"

text \<open>
  Index names with the separator: \<open>a_b\<close> (two rows, positions 1 and 0) and \<open>a\<close> of table
  \<open>t\<close>, and a row of \<open>a\<close> of another table.
\<close>

definition exGroupCols :: "ColumnInfo list" where
  "exGroupCols =
     [exCol None (js ''t'') (js ''c1'') 1 (js ''int''),
      exCol None (js ''t'') (js ''c2'') 2 (js ''int'')]"

definition exGroupIdxs :: "IndexInfo list" where
  "exGroupIdxs =
     [exIdx None (js ''t'') (js ''a_b'') False (js ''c1'') 1,
      exIdx None (js ''t'') (js ''a'') True (js ''c2'') 1,
      exIdx None (js ''u'') (js ''a'') True (js ''c1'') 5,
      exIdx None (js ''t'') (js ''a_b'') False (js ''c2'') 0]"

text \<open>
  A primary-key column padded with a space, a no-break space (U+00A0), an em space (U+2003)
  and U+FEFF, and a primary key of another table.
\<close>

definition exPaddedPks :: "PrimaryKeyInfo list" where
  "exPaddedPks =
     [exPk None (js ''u'') (js ''other''),
      exPk None (js ''t'') ([0xA0, 0x20] @ js ''id'' @ [0x2003, 0xFEFF])]"

text \<open>An index row of table \<open>t\<close> with the empty schema and the name \<open>_proto__\<close>.\<close>

definition exProtoIdxs :: "IndexInfo list" where
  "exProtoIdxs = [exIdx (Some []) (js ''t'') (js ''_proto__'') False (js ''x'') 1]"

section \<open>Example inputs of the layout\<close>

text \<open>A table and a relationship with given ids and nothing else of note.\<close>

definition exT :: "jsstring \<Rightarrow> DBTable" where
  "exT n =
     \<lparr>table_id = n, table_name = n, table_schema = None, table_x = 0, table_y = 0,
      table_fields = [], table_indexes = [], color = js ''#000000'', isView = False,
      createdAt = 0, width = None, comments = None, hidden = None, auditable = False,
      revisionEnabled = False\<rparr>"

definition exRel :: "jsstring \<Rightarrow> jsstring \<Rightarrow> DBRelationship" where
  "exRel a b =
     \<lparr>rel_id = a @ b, sourceTableId = a, targetTableId = b, sourceFieldId = [], targetFieldId = [],
      sourceCardinality = One, targetCardinality = Many\<rparr>"

text \<open>
  The spec's end-to-end scenario: the hub \<open>A\<close> with the leaves \<open>B\<close> and \<open>C\<close>, the hub given
  second; the connections of that input and the states after \<open>A\<close>, \<open>B\<close> and \<open>C\<close> have been
  placed.
\<close>

definition exStar :: "DBTable list" where
  "exStar = [exT (js ''B''), exT (js ''A''), exT (js ''C'')]"

definition exStarRels :: "DBRelationship list" where
  "exStarRels = [exRel (js ''A'') (js ''B''), exRel (js ''C'') (js ''A'')]"

definition exStarMap :: connections where
  "exStarMap = [js ''A'' \<mapsto> [js ''B'', js ''C''], js ''B'' \<mapsto> [js ''A''], js ''C'' \<mapsto> [js ''A'']]"

definition exStar1 :: LayoutState where
  "exStar1 =
     \<lparr>callerTables = exStar, callerRelationships = exStarRels,
      tables = [exT (js ''B''), (exT (js ''A''))\<lparr>table_x := 100, table_y := 100\<rparr>, exT (js ''C'')],
      positionedTables = {js ''A''},
      tablePositions = [(js ''A'', (100, 100))],
      capReached = {}\<rparr>"

definition exStar2 :: LayoutState where
  "exStar2 =
     \<lparr>callerTables = exStar, callerRelationships = exStarRels,
      tables = [(exT (js ''B''))\<lparr>table_x := 500, table_y := 100\<rparr>,
                (exT (js ''A''))\<lparr>table_x := 100, table_y := 100\<rparr>, exT (js ''C'')],
      positionedTables = {js ''A'', js ''B''},
      tablePositions = [(js ''A'', (100, 100)), (js ''B'', (500, 100))],
      capReached = {}\<rparr>"

definition exStar3 :: LayoutState where
  "exStar3 =
     \<lparr>callerTables = exStar, callerRelationships = exStarRels,
      tables = [(exT (js ''B''))\<lparr>table_x := 500, table_y := 100\<rparr>,
                (exT (js ''A''))\<lparr>table_x := 100, table_y := 100\<rparr>,
                (exT (js ''C''))\<lparr>table_x := -300, table_y := 100\<rparr>],
      positionedTables = {js ''A'', js ''B'', js ''C''},
      tablePositions = [(js ''A'', (100, 100)), (js ''B'', (500, 100)), (js ''C'', (-300, 100))],
      capReached = {}\<rparr>"

text \<open>
  Two tables with no relationship between them, and the states after each has been placed.
\<close>

definition exPair :: "DBTable list" where
  "exPair = [exT (js ''P''), exT (js ''Q'')]"

definition exPair1 :: LayoutState where
  "exPair1 =
     \<lparr>callerTables = exPair, callerRelationships = [],
      tables = [(exT (js ''P''))\<lparr>table_x := 100, table_y := 100\<rparr>, exT (js ''Q'')],
      positionedTables = {js ''P''},
      tablePositions = [(js ''P'', (100, 100))],
      capReached = {}\<rparr>"

definition exPair2 :: LayoutState where
  "exPair2 =
     \<lparr>callerTables = exPair, callerRelationships = [],
      tables = [(exT (js ''P''))\<lparr>table_x := 100, table_y := 100\<rparr>,
                (exT (js ''Q''))\<lparr>table_x := 500, table_y := 100\<rparr>],
      positionedTables = {js ''P'', js ''Q''},
      tablePositions = [(js ''P'', (100, 100)), (js ''Q'', (500, 100))],
      capReached = {}\<rparr>"

text \<open>
  A crowded \<open>tablePositions\<close>: 125 columns and 95 rows of entries, 300 apart across and
  400 apart down, around \<open>(100, 100)\<close>. No two of them overlap, and every point within
  18600 of \<open>(100, 100)\<close> on both axes overlaps one of them.
\<close>

definition exGridEntry :: "nat \<Rightarrow> nat \<Rightarrow> jsstring \<times> position" where
  "exGridEntry a b =
     (js (CHR ''g'' # replicate a CHR ''a'' @ replicate b CHR ''b''),
      (100 + 300 * (real a - 62), 100 + 400 * (real b - 47)))"

definition exGrid :: "(jsstring \<times> position) list" where
  "exGrid = concat (map (\<lambda>a. map (exGridEntry a) [0..<95]) [0..<125])"

section \<open>Properties of the credential holder\<close>

text \<open>
  C9, as stated: for every token value \<open>t\<close>, \<open>getToken\<close> after \<open>setToken(t)\<close> returns \<open>t\<close>.
  This fails for the empty string, which \<open>!this.token\<close> treats like \<open>null\<close>.
\<close>

theorem getToken_empty_counterexample:
  "getToken (setToken '''' tokenManager) \<noteq> Inr ''''"
  by (simp add: getToken_def setToken_def tokenManager_def)

text \<open>
  C9, amended: \<open>getToken\<close> throws on the fresh holder and after \<open>clearToken\<close>; after
  \<open>setToken(t)\<close> with a non-empty \<open>t\<close> it returns \<open>t\<close>; after \<open>setToken('')\<close> it throws.
\<close>

theorem tokenManager_set_get_clear:
  "getToken tokenManager = Inl NoTokenSet
   \<and> getToken (clearToken tm) = Inl NoTokenSet
   \<and> (t \<noteq> [] \<longrightarrow> getToken (setToken t tm) = Inr t)
   \<and> getToken (setToken [] tm) = Inl NoTokenSet"
  by (simp add: getToken_def setToken_def clearToken_def tokenManager_def)

theorem tokenManager_set_get_clear_witness:
  "''abc'' \<noteq> [] \<and> getToken (setToken ''abc'' (clearToken (setToken ''x'' tokenManager))) = Inr ''abc''
   \<and> getToken (clearToken (setToken ''abc'' tokenManager)) = Inl NoTokenSet"
  using tokenManager_set_get_clear [of "setToken ''abc'' tokenManager" "''abc''"]
        tokenManager_set_get_clear [of "clearToken (setToken ''x'' tokenManager)" "''abc''"]
  by simp

section \<open>Properties of the metadata normalizer\<close>

subsection \<open>Strings\<close>

lemma js_eq [simp]: "(js a = js b) = (a = b)"
  by (simp add: js_def inj_map_eq_map inj_of_char)

lemma js_append [simp]: "js a @ js b = js (a @ b)"
  by (simp add: js_def)

lemma js_Nil [simp]: "js [] = []" "(js a = []) = (a = [])" "([] = js a) = (a = [])"
  by (auto simp: js_def)

lemma js_Cons_eq [simp]: "(js (c # cs) = js (d # ds) @ n) = (c = d \<and> js cs = js ds @ n)"
  by (simp add: js_def)

subsection \<open>Keeping the first occurrence\<close>

lemma firstsBy_snoc:
  "firstsBy k (as @ [r]) = firstsBy k as @ (if k r \<in> k ` set as then [] else [r])"
proof (induction k as rule: firstsBy.induct)
  case (1 k)
  then show ?case by simp
next
  case (2 k a as)
  show ?case
  proof (cases "k r = k a")
    case True
    then show ?thesis by simp
  next
    case False
    have "k r \<in> k ` set (filter (\<lambda>b. k b \<noteq> k a) as) \<longleftrightarrow> k r \<in> k ` set as"
      using False by auto
    with False 2 show ?thesis by auto
  qed
qed

lemma set_firstsBy: "set (firstsBy k as) \<subseteq> set as"
  by (induction k as rule: firstsBy.induct) auto

lemma keys_firstsBy: "k ` set (firstsBy k as) = k ` set as"
proof (induction k as rule: firstsBy.induct)
  case (1 k)
  then show ?case by simp
next
  case (2 k a as)
  then show ?case by auto
qed

lemma firstsBy_cong:
  "(\<And>a b. a \<in> set as \<Longrightarrow> b \<in> set as \<Longrightarrow> (k1 a = k1 b) = (k2 a = k2 b))
   \<Longrightarrow> firstsBy k1 as = firstsBy k2 as"
proof (induction k1 as rule: firstsBy.induct)
  case (1 k)
  then show ?case by simp
next
  case (2 k1 a as)
  have f: "filter (\<lambda>b. k1 b \<noteq> k1 a) as = filter (\<lambda>b. k2 b \<noteq> k2 a) as"
    by (rule filter_cong) (use 2 in auto)
  have "firstsBy k1 (filter (\<lambda>b. k1 b \<noteq> k1 a) as) = firstsBy k2 (filter (\<lambda>b. k1 b \<noteq> k1 a) as)"
    by (rule "2.IH") (use 2 in auto)
  then show ?case by (simp add: f)
qed

subsection \<open>Columns and fields\<close>

lemma uniqueColumns_fold:
  "foldl uniqueColumns_step [] cols = map (\<lambda>c. (col_name c, c)) (firstsBy col_name cols)"
proof (induction cols rule: rev_induct)
  case Nil
  then show ?case by simp
next
  case (snoc c cols)
  have "fst ` set (map (\<lambda>c. (col_name c, c)) (firstsBy col_name cols)) = col_name ` set cols"
    using keys_firstsBy [of col_name cols] by (simp add: image_image)
  with snoc show ?case
    by (simp add: uniqueColumns_step_def firstsBy_snoc)
qed

lemma matchingColumns_spec:
  "matchingColumns md ti = filter (\<lambda>c. describes ti (col_schema c) (col_table c)) (columns md)"
  by (simp add: matchingColumns_def describes_def)

lemma sortedColumns_spec: "sortedColumns md ti = specColumns md ti"
  by (simp add: sortedColumns_def specColumns_def uniqueColumns_def uniqueColumns_fold comp_def
                matchingColumns_spec)

lemma tableIndexes_spec: "tableIndexes md ti = specIndexRows md ti"
  unfolding tableIndexes_def specIndexRows_def
  by (rule filter_cong) (auto simp: describes_def)

lemma mkField_sel:
  "field_name (mkField env pks aggs tick col) = col_name col"
  "primaryKey (mkField env pks aggs tick col) = (col_name col \<in> set pks)"
  "unique (mkField env pks aggs tick col) = list_ex (isSingleUniqueOn (col_name col)) aggs"
  "type_name (field_type (mkField env pks aggs tick col)) = col_type col"
  "nullable (mkField env pks aggs tick col) = col_nullable col"
  "field_id (mkField env pks aggs tick col) = generateId env tick"
  by (simp_all add: mkField_def)

lemma mkFields_names: "map field_name (mkFields env pks aggs tick cols) = map col_name cols"
  by (induction cols arbitrary: tick) (simp_all add: mkField_sel)

lemma mkFields_origin: "map fieldOrigin (mkFields env pks aggs tick cols) = map columnOrigin cols"
  by (induction cols arbitrary: tick) (simp_all add: mkField_sel fieldOrigin_def columnOrigin_def)

lemma mkFields_primaryKey:
  "f \<in> set (mkFields env pks aggs tick cols) \<Longrightarrow> primaryKey f = (field_name f \<in> set pks)"
  by (induction cols arbitrary: tick) (auto simp: mkField_sel)

lemma mkFields_unique:
  "f \<in> set (mkFields env pks aggs tick cols)
   \<Longrightarrow> unique f = (\<exists>e \<in> set aggs. isSingleUniqueOn (field_name f) e)"
  by (induction cols arbitrary: tick) (auto simp: mkField_sel list_ex_iff)

lemma buildTable_fields:
  "table_fields (fst (buildTable env md tick ti aggs)) =
     mkFields env (tablePrimaryKeys md ti) aggs tick (specColumns md ti)"
  by (simp add: buildTable_def Let_def sortedColumns_spec)

lemma buildTable_indexes:
  "table_indexes (fst (buildTable env md tick ti aggs)) =
     mkIndexes env (table_fields (fst (buildTable env md tick ti aggs)))
       (tick + 2 * length (sortedColumns md ti)) aggs"
  by (simp add: buildTable_def Let_def)

lemma buildTable_carried:
  "carried (fst (buildTable env md tick ti aggs)) = described ti"
  by (simp add: buildTable_def Let_def carried_def described_def)

lemma tablePrimaryKeys_mem:
  "n \<in> set (tablePrimaryKeys md ti) \<longleftrightarrow>
     (\<exists>pk \<in> set (primaryKeys md). describes ti (pk_schema pk) (pk_table pk) \<and> trim (pk_column pk) = n)"
  by (auto simp: tablePrimaryKeys_def describes_def)

subsection \<open>Aggregation of index rows\<close>

lemma error_is_TypeError: "(e :: normalizer_error) = TypeError"
  by (cases e) simp

lemma reduceStep_simps:
  "reduceStep (Inl e) idx = Inl e" "reduceStep (Inr acc) idx = aggregateStep acc idx"
  by (simp_all add: reduceStep_def)

lemma aggregate_closed:
  "(\<forall>r \<in> set rows. indexKey r \<notin> set inheritedKeys)
   \<Longrightarrow> foldl reduceStep (Inr []) rows
         = Inr (map (\<lambda>r. (indexKey r, groupOf indexKey rows r)) (firstsBy indexKey rows))"
proof (induction rows rule: rev_induct)
  case Nil
  then show ?case by simp
next
  case (snoc r rows)
  let ?k = indexKey
  let ?old = "map (\<lambda>a. (?k a, groupOf ?k rows a)) (firstsBy ?k rows)"
  from snoc.prems have own: "?k r \<notin> set inheritedKeys"
    and rest: "\<forall>r \<in> set rows. ?k r \<notin> set inheritedKeys"
    by simp_all
  have step: "foldl reduceStep (Inr []) (rows @ [r]) = aggregateStep ?old r"
    using snoc.IH [OF rest] by (simp add: reduceStep_simps)
  have keys: "fst ` set ?old = ?k ` set rows"
    using keys_firstsBy [of ?k rows] by (simp add: image_image)
  show ?case
  proof (cases "?k r \<in> ?k ` set rows")
    case False
    have same: "groupOf ?k (rows @ [r]) a = groupOf ?k rows a" if "a \<in> set (firstsBy ?k rows)" for a
    proof -
      from that have "a \<in> set rows" using set_firstsBy [of ?k rows] by auto
      with False have "?k r \<noteq> ?k a" by auto
      then show ?thesis by (simp add: groupOf_def)
    qed
    have new: "groupOf ?k (rows @ [r]) r = \<lparr>agg_info = r, agg_columns = [colOf r]\<rparr>"
    proof -
      have "\<forall>q \<in> set rows. ?k q \<noteq> ?k r"
        using False by (metis imageI)
      then have "filter (\<lambda>q. ?k q = ?k r) rows = []"
        by (simp add: filter_empty_conv)
      then show ?thesis by (simp add: groupOf_def)
    qed
    show ?thesis
      unfolding step
      using False keys same new own
      by (simp add: aggregateStep_def Let_def firstsBy_snoc colOf_def)
  next
    case True
    have upd: "(\<lambda>(k', e). if k' = ?k r then (k', e\<lparr>agg_columns := agg_columns e @ [colOf r]\<rparr>) else (k', e))
                 (?k a, groupOf ?k rows a) = (?k a, groupOf ?k (rows @ [r]) a)" for a
      by (auto simp: groupOf_def)
    have "aggregateStep ?old r
            = Inr (map (\<lambda>(k', e). if k' = ?k r then (k', e\<lparr>agg_columns := agg_columns e @ [colOf r]\<rparr>) else (k', e)) ?old)"
      using True keys by (simp add: aggregateStep_def Let_def colOf_def)
    also have "\<dots> = Inr (map (\<lambda>a. (?k a, groupOf ?k (rows @ [r]) a)) (firstsBy ?k rows))"
      unfolding map_map comp_def upd ..
    finally show ?thesis
      unfolding step using True by (simp add: firstsBy_snoc)
  qed
qed

lemma aggregate_throws:
  "(\<exists>r \<in> set rows. indexKey r \<in> set inheritedKeys)
   \<Longrightarrow> foldl reduceStep (Inr []) rows = Inl TypeError"
proof (induction rows rule: rev_induct)
  case Nil
  then show ?case by simp
next
  case (snoc r rows)
  show ?case
  proof (cases "\<exists>q \<in> set rows. indexKey q \<in> set inheritedKeys")
    case True
    with snoc.IH show ?thesis by (simp add: reduceStep_simps)
  next
    case False
    with snoc.prems have inh: "indexKey r \<in> set inheritedKeys" by auto
    from False have own: "\<forall>q \<in> set rows. indexKey q \<notin> set inheritedKeys" by blast
    let ?old = "map (\<lambda>a. (indexKey a, groupOf indexKey rows a)) (firstsBy indexKey rows)"
    have keys: "fst ` set ?old = indexKey ` set rows"
      using keys_firstsBy [of indexKey rows] by (simp add: image_image)
    from own inh have "indexKey r \<notin> indexKey ` set rows" by auto
    with keys inh have "aggregateStep ?old r = Inl TypeError"
      by (simp add: aggregateStep_def Let_def)
    then show ?thesis
      by (simp add: aggregate_closed [OF own] reduceStep_simps)
  qed
qed

lemma indexKey_eq_iff:
  assumes "schemaNameToDomainSchemaName (idx_schema a) = schemaNameToDomainSchemaName (idx_schema b)"
  shows "(indexKey a = indexKey b) = (indexPair a = indexPair b)"
proof -
  have u: "js ''undefined'' @ js ''_'' @ n \<noteq> js ''_'' @ n'" for n n'
    by (simp add: js_def)
  show ?thesis
    using assms u u [symmetric]
    by (auto simp: indexKey_def indexPair_def schemaNameToDomainSchemaName_def
             simp del: js_append split: option.splits if_splits)
qed

lemma specIndexRows_same_schema:
  "a \<in> set (specIndexRows md ti) \<Longrightarrow> b \<in> set (specIndexRows md ti)
   \<Longrightarrow> schemaNameToDomainSchemaName (idx_schema a) = schemaNameToDomainSchemaName (idx_schema b)"
  by (simp add: specIndexRows_def describes_def)

lemma specIndexRows_key_pair:
  "a \<in> set (specIndexRows md ti) \<Longrightarrow> b \<in> set (specIndexRows md ti)
   \<Longrightarrow> (indexKey a = indexKey b) = (indexPair a = indexPair b)"
  using indexKey_eq_iff specIndexRows_same_schema by blast

lemma groups_key_pair:
  "map (groupOf indexKey (specIndexRows md ti)) (firstsBy indexKey (specIndexRows md ti))
     = specIndexGroups md ti"
proof -
  let ?rows = "specIndexRows md ti"
  have fb: "firstsBy indexKey ?rows = firstsBy indexPair ?rows"
    by (rule firstsBy_cong) (rule specIndexRows_key_pair)
  have "groupOf indexKey ?rows r = groupOf indexPair ?rows r" if "r \<in> set ?rows" for r
  proof -
    have "filter (\<lambda>q. indexKey q = indexKey r) ?rows = filter (\<lambda>q. indexPair q = indexPair r) ?rows"
      by (rule filter_cong) (use that specIndexRows_key_pair in auto)
    then show ?thesis by (simp add: groupOf_def)
  qed
  moreover have "set (firstsBy indexPair ?rows) \<subseteq> set ?rows" by (rule set_firstsBy)
  ultimately show ?thesis
    by (auto simp: specIndexGroups_def fb)
qed

text \<open>
  The aggregation of one table throws exactly when one of its index rows has an inherited
  key, and otherwise yields the spec's groups.
\<close>

lemma aggregatedIndexes_result:
  "aggregatedIndexes md ti
     = (if \<exists>r \<in> set (specIndexRows md ti). indexKey r \<in> set inheritedKeys then Inl TypeError
        else Inr (map (\<lambda>r. (indexKey r, groupOf indexKey (specIndexRows md ti) r))
                      (firstsBy indexKey (specIndexRows md ti))))"
  by (simp add: aggregatedIndexes_def tableIndexes_spec aggregate_closed aggregate_throws)

lemma aggregatedIndexes_Inr:
  "aggregatedIndexes md ti = Inr acc \<Longrightarrow> Object_values acc = specIndexGroups md ti"
  by (auto simp: aggregatedIndexes_result Object_values_def comp_def groups_key_pair
           split: if_splits)

lemma createTable_Inr:
  assumes "createTable env md tick ti = Inr (t, tick1)"
  shows "(t, tick1) = buildTable env md tick ti (specIndexGroups md ti)"
    and "\<forall>r \<in> set (specIndexRows md ti). indexKey r \<notin> set inheritedKeys"
proof -
  from assms obtain acc where a: "aggregatedIndexes md ti = Inr acc"
    and b: "(t, tick1) = buildTable env md tick ti (Object_values acc)"
    by (auto simp: createTable_def split: sum.splits)
  from b aggregatedIndexes_Inr [OF a]
  show "(t, tick1) = buildTable env md tick ti (specIndexGroups md ti)" by simp
  from a show "\<forall>r \<in> set (specIndexRows md ti). indexKey r \<notin> set inheritedKeys"
    by (auto simp: aggregatedIndexes_result split: if_splits)
qed

lemma createTable_total:
  assumes "\<forall>r \<in> set (specIndexRows md ti). indexKey r \<notin> set inheritedKeys"
  shows "createTable env md tick ti = Inr (buildTable env md tick ti (specIndexGroups md ti))"
  using assms
  by (simp add: createTable_def aggregatedIndexes_result Object_values_def comp_def groups_key_pair)

lemma createTable_throws:
  assumes "\<exists>r \<in> set (specIndexRows md ti). indexKey r \<in> set inheritedKeys"
  shows "createTable env md tick ti = Inl TypeError"
  using assms by (simp add: createTable_def aggregatedIndexes_result)

lemma createTables_all2:
  assumes "createTables env md tick tis = Inr (out, tick')"
    and "\<And>tick ti. \<forall>r \<in> set (specIndexRows md ti). indexKey r \<notin> set inheritedKeys
           \<Longrightarrow> P (fst (buildTable env md tick ti (specIndexGroups md ti))) ti"
  shows "list_all2 P out tis"
  using assms(1)
proof (induction tis arbitrary: tick out)
  case Nil
  then show ?case by simp
next
  case (Cons ti rest)
  from Cons.prems obtain t tick1 ts where
    c: "createTable env md tick ti = Inr (t, tick1)"
    and r: "createTables env md tick1 rest = Inr (ts, tick')"
    and o: "out = t # ts"
    by (auto split: sum.splits)
  from createTable_Inr(1) [OF c] have "t = fst (buildTable env md tick ti (specIndexGroups md ti))"
    by (metis fst_conv)
  with assms(2) [OF createTable_Inr(2) [OF c]] have "P t ti" by simp
  with Cons.IH [OF r] o show ?case by simp
qed

lemma createTables_total:
  "(\<forall>ti \<in> set tis. \<forall>r \<in> set (specIndexRows md ti). indexKey r \<notin> set inheritedKeys)
   \<Longrightarrow> \<exists>out tick'. createTables env md tick tis = Inr (out, tick')"
proof (induction tis arbitrary: tick)
  case Nil
  then show ?case by simp
next
  case (Cons ti rest)
  obtain t tick1 where b: "buildTable env md tick ti (specIndexGroups md ti) = (t, tick1)"
    by (cases "buildTable env md tick ti (specIndexGroups md ti)")
  from Cons.prems have c: "createTable env md tick ti = Inr (t, tick1)"
    by (simp add: createTable_total b)
  from Cons.prems Cons.IH [of tick1] obtain ts tick2 where
    "createTables env md tick1 rest = Inr (ts, tick2)" by auto
  with c show ?case by simp
qed

lemma createTables_throws:
  "(\<exists>ti \<in> set tis. \<exists>r \<in> set (specIndexRows md ti). indexKey r \<in> set inheritedKeys)
   \<Longrightarrow> createTables env md tick tis = Inl TypeError"
proof (induction tis arbitrary: tick)
  case Nil
  then show ?case by simp
next
  case (Cons ti rest)
  show ?case
  proof (cases "\<exists>r \<in> set (specIndexRows md ti). indexKey r \<in> set inheritedKeys")
    case True
    then show ?thesis by (simp add: createTable_throws)
  next
    case False
    with Cons.prems have rest: "\<exists>ti \<in> set rest. \<exists>r \<in> set (specIndexRows md ti). indexKey r \<in> set inheritedKeys"
      by auto
    from False have "createTable env md tick ti = Inr (buildTable env md tick ti (specIndexGroups md ti))"
      by (simp add: createTable_total)
    with Cons.IH [OF rest] show ?thesis
      by (simp add: split_beta split: prod.splits)
  qed
qed

lemma ownKeysOnly_rows:
  "ownKeysOnly md
     \<longleftrightarrow> (\<forall>ti \<in> set (tableInfos md). \<forall>r \<in> set (specIndexRows md ti). indexKey r \<notin> set inheritedKeys)"
  by (auto simp: ownKeysOnly_def specIndexRows_def)

text \<open>
  \<open>createTablesFromMetadata\<close> returns on the inputs with own keys only and throws a
  \<open>TypeError\<close> on the others.
\<close>

lemma createTablesFromMetadata_returns:
  "ownKeysOnly md \<Longrightarrow> \<exists>out tick'. createTablesFromMetadata env md tick = Inr (out, tick')"
  unfolding createTablesFromMetadata_def ownKeysOnly_rows by (rule createTables_total)

lemma createTablesFromMetadata_throws:
  "\<not> ownKeysOnly md \<Longrightarrow> createTablesFromMetadata env md tick = Inl TypeError"
  unfolding createTablesFromMetadata_def ownKeysOnly_rows
  by (rule createTables_throws) blast

subsection \<open>Single-column unique indexes\<close>

lemma single_group:
  assumes "r \<in> set rows"
  shows "isSingleUniqueOn n (groupOf k rows r)
           \<longleftrightarrow> idx_unique r \<and> idx_column r = n \<and> filter (\<lambda>q. k q = k r) rows = [r]"
proof -
  have mem: "r \<in> set (filter (\<lambda>q. k q = k r) rows)"
    using assms by simp
  show ?thesis
  proof (cases "filter (\<lambda>q. k q = k r) rows")
    case Nil
    with mem show ?thesis by simp
  next
    case (Cons a as)
    show ?thesis
    proof (cases as)
      case Nil
      with Cons mem have "a = r" by simp
      with Cons Nil show ?thesis
        by (simp add: isSingleUniqueOn_def groupOf_def colOf_def)
    next
      case (Cons b bs)
      with \<open>filter (\<lambda>q. k q = k r) rows = a # as\<close> show ?thesis
        by (simp add: isSingleUniqueOn_def groupOf_def)
    qed
  qed
qed

lemma exists_single_group:
  "(\<exists>e \<in> set (map (groupOf k rows) (firstsBy k rows)). isSingleUniqueOn n e)
     \<longleftrightarrow> (\<exists>r \<in> set rows. idx_unique r \<and> idx_column r = n \<and> filter (\<lambda>q. k q = k r) rows = [r])"
  (is "?L \<longleftrightarrow> ?R")
proof
  assume ?L
  then obtain r where r: "r \<in> set (firstsBy k rows)" and s: "isSingleUniqueOn n (groupOf k rows r)"
    by auto
  from r have "r \<in> set rows" using set_firstsBy [of k rows] by auto
  with s show ?R using single_group [of r rows n k] by auto
next
  assume ?R
  then obtain r where r: "r \<in> set rows" and u: "idx_unique r" "idx_column r = n"
    and f: "filter (\<lambda>q. k q = k r) rows = [r]"
    by auto
  from r have "k r \<in> k ` set (firstsBy k rows)" by (simp add: keys_firstsBy)
  then obtain r' where r': "r' \<in> set (firstsBy k rows)" and kr: "k r' = k r" by auto
  from r' have "r' \<in> set rows" using set_firstsBy [of k rows] by auto
  with kr have "r' \<in> set (filter (\<lambda>q. k q = k r) rows)" by simp
  with f have "r' = r" by simp
  with r' have "r \<in> set (firstsBy k rows)" by simp
  moreover have "isSingleUniqueOn n (groupOf k rows r)"
    using single_group [of r rows n k] r u f by simp
  ultimately show ?L by auto
qed

lemma single_group_raw:
  "(\<exists>e \<in> set (specIndexGroups md ti). isSingleUniqueOn n e)
     \<longleftrightarrow> (\<exists>r \<in> set (indexes md).
            describes ti (idx_schema r) (idx_table r) \<and> idx_unique r \<and> idx_column r = n
            \<and> filter (\<lambda>q. describes ti (idx_schema q) (idx_table q) \<and> indexPair q = indexPair r)
                     (indexes md) = [r])"
  unfolding specIndexGroups_def exists_single_group
  by (auto simp: specIndexRows_def)

lemma mkIndexes_shape: "map indexShape (mkIndexes env fs tick aggs) = map (groupShape fs) aggs"
  by (induction aggs arbitrary: tick) (simp_all add: mkIndex_def indexShape_def groupShape_def)

subsection \<open>Evaluating the examples\<close>

lemma exTable_sel:
  "ti_schema exTable = None" "ti_table exTable = js ''t''" "ti_comment exTable = Some []"
  "ti_auditable exTable = True" "ti_revisionEnabled exTable = False"
  by (simp_all add: exTable_def)

lemma exCol_sel:
  "col_schema (exCol sch tbl n pos ty) = sch" "col_table (exCol sch tbl n pos ty) = tbl"
  "col_name (exCol sch tbl n pos ty) = n" "ordinal_position (exCol sch tbl n pos ty) = pos"
  "col_type (exCol sch tbl n pos ty) = ty" "col_nullable (exCol sch tbl n pos ty) = False"
  by (simp_all add: exCol_def)

lemma exIdx_sel:
  "idx_schema (exIdx sch tbl n u c pos) = sch" "idx_table (exIdx sch tbl n u c pos) = tbl"
  "idx_name (exIdx sch tbl n u c pos) = n" "idx_unique (exIdx sch tbl n u c pos) = u"
  "idx_column (exIdx sch tbl n u c pos) = c" "column_position (exIdx sch tbl n u c pos) = pos"
  by (simp_all add: exIdx_def)

lemma exIdx_eq:
  "(exIdx sch tbl n u c pos = exIdx sch' tbl' n' u' c' pos')
     = (sch = sch' \<and> tbl = tbl' \<and> n = n' \<and> u = u' \<and> c = c' \<and> pos = pos')"
  by (auto simp: exIdx_def)

lemma exPk_sel:
  "pk_schema (exPk sch tbl c) = sch" "pk_table (exPk sch tbl c) = tbl" "pk_column (exPk sch tbl c) = c"
  by (simp_all add: exPk_def)

lemma exMd_sel:
  "tableInfos (exMd cols idxs pks) = [exTable]"
  "columns (exMd cols idxs pks) = cols"
  "indexes (exMd cols idxs pks) = idxs"
  "primaryKeys (exMd cols idxs pks) = pks"
  "views (exMd cols idxs pks) = []"
  by (simp_all add: exMd_def)

lemma exEnv_sel: "generateId exEnv n = js (replicate (Suc n) CHR ''i'')"
  by (simp add: exEnv_def)

lemma norm_simps:
  "schemaNameToDomainSchemaName None = None"
  "schemaNameToDomainSchemaName (Some []) = None"
  "s \<noteq> [] \<Longrightarrow> schemaNameToDomainSchemaName (Some s) = Some s"
  by (simp_all add: schemaNameToDomainSchemaName_def)

lemma describes_exTable:
  "describes exTable sch tbl = (schemaNameToDomainSchemaName sch = None \<and> tbl = js ''t'')"
  by (simp add: describes_def exTable_sel norm_simps)

lemma tablesOf_Inr: "tablesOf (Inr (out, tick)) = out"
  by (simp add: tablesOf_def)

lemma ex_single:
  assumes "createTablesFromMetadata env (exMd cols idxs pks) tick = Inr (out, tick')"
    and "list_all2 P out (tableInfos (exMd cols idxs pks))"
  shows "P (hd (tablesOf (createTablesFromMetadata env (exMd cols idxs pks) tick))) exTable"
  using assms by (auto simp: exMd_sel list_all2_Cons2 tablesOf_Inr)

lemma ex_ownKeysOnly:
  "ownKeysOnly (exMd cols idxs pks)
     = (\<forall>r \<in> set idxs. describes exTable (idx_schema r) (idx_table r) \<longrightarrow> indexKey r \<notin> set inheritedKeys)"
  by (simp add: ownKeysOnly_def exMd_sel)

lemma ex_own_no_index: "ownKeysOnly (exMd cols [] pks)"
  by (simp add: ex_ownKeysOnly)

lemma ex_order:
  "map col_name (specColumns (exMd exOrderCols idxs pks) exTable) = [js ''a'', js ''b'', js ''c'']"
  by (simp add: specColumns_def exMd_sel exOrderCols_def describes_exTable exCol_sel norm_simps)

lemma ex_dedup:
  "map columnOrigin (specColumns (exMd exDupCols idxs pks) exTable) = [(js ''a'', js ''int'', False)]"
  by (simp add: specColumns_def exMd_sel exDupCols_def describes_exTable exCol_sel norm_simps
                columnOrigin_def)

subsection \<open>The claims\<close>

text \<open>
  C4: for every table descriptor, the built table's field list is the columns of the raw
  input whose (normalized schema, table name) match the descriptor, deduplicated by column
  name keeping the first occurrence in raw input order, then sorted ascending by ordinal
  position. Each field carries the name, type and nullability of the column row it was
  built from, so the surviving row of a duplicated name is the first one.
\<close>

theorem fields_dedup_then_sorted:
  "createTablesFromMetadata env md tick = Inr (out, tick')
   \<Longrightarrow> list_all2 (\<lambda>t ti. map fieldOrigin (table_fields t) = map columnOrigin (specColumns md ti)
                        \<and> map field_name (table_fields t) = map col_name (specColumns md ti))
                 out (tableInfos md)"
  unfolding createTablesFromMetadata_def
  by (erule createTables_all2) (simp add: buildTable_fields mkFields_origin mkFields_names)

text \<open>
  The two instances the spec names, among columns of another table and another schema:
  ordinal positions \<open>[3,1,2]\<close> under names \<open>[c,a,b]\<close> give the field order \<open>[a,b,c]\<close>; two
  rows named \<open>a\<close> with different ordinals give one field, built from the first row of the
  table (type \<open>int\<close>).
\<close>

theorem fields_dedup_then_sorted_witness:
  "\<not> isl (createTablesFromMetadata exEnv (exMd exOrderCols [] []) 0)
   \<and> map field_name (table_fields (hd (tablesOf (createTablesFromMetadata exEnv
        (exMd exOrderCols [] []) 0))))
       = [js ''a'', js ''b'', js ''c'']
   \<and> \<not> isl (createTablesFromMetadata exEnv (exMd exDupCols [] []) 0)
   \<and> map fieldOrigin (table_fields (hd (tablesOf (createTablesFromMetadata exEnv
        (exMd exDupCols [] []) 0))))
       = [(js ''a'', js ''int'', False)]"
proof -
  obtain out1 tick1 where r1: "createTablesFromMetadata exEnv (exMd exOrderCols [] []) 0 = Inr (out1, tick1)"
    using createTablesFromMetadata_returns [OF ex_own_no_index] by blast
  obtain out2 tick2 where r2: "createTablesFromMetadata exEnv (exMd exDupCols [] []) 0 = Inr (out2, tick2)"
    using createTablesFromMetadata_returns [OF ex_own_no_index] by blast
  from ex_single [OF r1 fields_dedup_then_sorted [OF r1]]
       ex_single [OF r2 fields_dedup_then_sorted [OF r2]]
  show ?thesis
    by (simp add: ex_order ex_dedup r1 r2)
qed

lemma ex_run:
  assumes "createTablesFromMetadata env (exMd cols idxs pks) tick = Inr (out, tick')"
  shows "hd (tablesOf (createTablesFromMetadata env (exMd cols idxs pks) tick))
           = fst (buildTable env (exMd cols idxs pks) tick exTable
                    (specIndexGroups (exMd cols idxs pks) exTable))"
proof -
  from assms obtain t tick1 where
    c: "createTable env (exMd cols idxs pks) tick exTable = Inr (t, tick1)" and o: "out = [t]"
    by (auto simp: createTablesFromMetadata_def exMd_sel split: sum.splits)
  from createTable_Inr(1) [OF c] have "t = fst (buildTable env (exMd cols idxs pks) tick exTable
                    (specIndexGroups (exMd cols idxs pks) exTable))"
    by (metis fst_conv)
  with assms o show ?thesis by (simp add: tablesOf_Inr)
qed

lemma ex_run_names:
  assumes "createTablesFromMetadata env (exMd cols idxs pks) tick = Inr (out, tick')"
  shows "map field_name (table_fields (hd (tablesOf (createTablesFromMetadata env (exMd cols idxs pks) tick))))
           = map col_name (specColumns (exMd cols idxs pks) exTable)"
  by (simp add: ex_run [OF assms] buildTable_fields mkFields_names)

text \<open>
  C5: a built field is \<open>unique\<close> iff some unique index of the same table aggregates to
  exactly one column and that column is the field's name: some raw index row belongs to the
  table's descriptor, is unique, names the field, and is the only raw row of that
  descriptor with its (schema, index name).
\<close>

theorem unique_iff_single_column_unique_index:
  "createTablesFromMetadata env md tick = Inr (out, tick')
   \<Longrightarrow> list_all2 (\<lambda>t ti. \<forall>f \<in> set (table_fields t).
                    unique f \<longleftrightarrow>
                      (\<exists>r \<in> set (indexes md).
                         describes ti (idx_schema r) (idx_table r)
                         \<and> idx_unique r \<and> idx_column r = field_name f
                         \<and> filter (\<lambda>q. describes ti (idx_schema q) (idx_table q)
                                       \<and> indexPair q = indexPair r) (indexes md) = [r]))
                 out (tableInfos md)"
  unfolding createTablesFromMetadata_def
  by (erule createTables_all2) (simp add: buildTable_fields mkFields_unique single_group_raw)

lemma ex_unique_own: "ownKeysOnly (exMd exUniqueCols exUniqueIdxs [])"
  by (simp add: ex_ownKeysOnly exUniqueIdxs_def describes_exTable exIdx_sel norm_simps
                indexKey_def inheritedKeys_def)

lemma ex_unique_names:
  "map col_name (specColumns (exMd exUniqueCols idxs pks) exTable) = [js ''x'', js ''y'', js ''z'']"
  by (simp add: specColumns_def exMd_sel exUniqueCols_def describes_exTable exCol_sel norm_simps)

text \<open>
  A two-column unique index over \<open>(x, y)\<close> leaves \<open>x\<close> and \<open>y\<close> not unique; a one-column
  unique index over \<open>z\<close> makes \<open>z\<close> unique. The one-column unique indexes of another table
  and of another schema do not count.
\<close>

theorem unique_iff_single_column_unique_index_witness:
  "\<not> isl (createTablesFromMetadata exEnv (exMd exUniqueCols exUniqueIdxs []) 0)
   \<and> map (\<lambda>f. (field_name f, unique f))
        (table_fields (hd (tablesOf (createTablesFromMetadata exEnv
           (exMd exUniqueCols exUniqueIdxs []) 0))))
       = [(js ''x'', False), (js ''y'', False), (js ''z'', True)]"
proof -
  let ?md = "exMd exUniqueCols exUniqueIdxs []"
  let ?fs = "table_fields (hd (tablesOf (createTablesFromMetadata exEnv ?md 0)))"
  obtain out tick' where r: "createTablesFromMetadata exEnv ?md 0 = Inr (out, tick')"
    using createTablesFromMetadata_returns [OF ex_unique_own] by blast
  have "map field_name ?fs = [js ''x'', js ''y'', js ''z'']"
    by (simp add: ex_run_names [OF r] ex_unique_names)
  then obtain f1 f2 f3 where fs: "?fs = [f1, f2, f3]"
    and n: "field_name f1 = js ''x''" "field_name f2 = js ''y''" "field_name f3 = js ''z''"
    by (auto simp: map_eq_Cons_conv)
  from ex_single [OF r unique_iff_single_column_unique_index [OF r]]
  have "\<forall>f \<in> set ?fs. unique f \<longleftrightarrow>
          (\<exists>r \<in> set (indexes ?md).
             describes exTable (idx_schema r) (idx_table r)
             \<and> idx_unique r \<and> idx_column r = field_name f
             \<and> filter (\<lambda>q. describes exTable (idx_schema q) (idx_table q)
                           \<and> indexPair q = indexPair r) (indexes ?md) = [r])" .
  then have "\<not> unique f1 \<and> \<not> unique f2 \<and> unique f3"
    unfolding fs
    by (simp add: n exMd_sel exUniqueIdxs_def describes_exTable indexPair_def exIdx_sel exIdx_eq
                  norm_simps)
  then show ?thesis
    unfolding fs by (simp add: n r)
qed

text \<open>
  C7, amended: a built field is a primary key iff its name, exactly as the column
  descriptor gives it, equals the trimmed column of some primary-key descriptor of the same
  (normalized schema, table). Only the primary-key descriptor's column is trimmed
  (\<open>pk.column.trim()\<close>); \<open>tablePrimaryKeys.includes(col.name)\<close> compares the column name
  untrimmed.
\<close>

theorem primaryKey_untrimmed_name:
  "createTablesFromMetadata env md tick = Inr (out, tick')
   \<Longrightarrow> list_all2 (\<lambda>t ti. \<forall>f \<in> set (table_fields t).
                    primaryKey f \<longleftrightarrow>
                      (\<exists>pk \<in> set (primaryKeys md).
                         describes ti (pk_schema pk) (pk_table pk)
                         \<and> trim (pk_column pk) = field_name f))
                 out (tableInfos md)"
  unfolding createTablesFromMetadata_def
  by (erule createTables_all2) (simp add: buildTable_fields mkFields_primaryKey tablePrimaryKeys_mem)

lemma js_unfold: "js (c # cs) = of_char c # js cs"
  by (simp add: js_def)

lemma ex_trim:
  "trim (0xA0 # 0x20 # js ''id'' @ [0x2003, 0xFEFF]) = js ''id''"
  "trim (js '' id'') = js ''id''"
  "trim (js ''id'') = js ''id''"
  "trim (js ''other'') = js ''other''"
  by (simp_all add: trim_def isWhiteSpace_def js_def)

lemma ex_id_names:
  "map col_name (specColumns (exMd [exCol None (js ''t'') n 1 (js ''int'')] idxs pks) exTable) = [n]"
  by (simp add: specColumns_def exMd_sel describes_exTable exCol_sel norm_simps)

text \<open>
  C7, as stated, compares the field's trimmed name. The column named \<open>' id'\<close> with the
  primary-key descriptor \<open>'id'\<close>: the function returns, the trimmed name is among the
  trimmed primary-key columns, and the field is not marked \<open>primaryKey\<close>.
\<close>

theorem primaryKey_trimmed_name_counterexample:
  "\<not> isl (createTablesFromMetadata exEnv
       (exMd [exCol None (js ''t'') (js '' id'') 1 (js ''int'')] [] [exPk None (js ''t'') (js ''id'')]) 0)
   \<and> trim (field_name (hd (table_fields (hd (tablesOf (createTablesFromMetadata exEnv
       (exMd [exCol None (js ''t'') (js '' id'') 1 (js ''int'')] [] [exPk None (js ''t'') (js ''id'')]) 0))))))
     \<in> set (map (\<lambda>pk. trim (pk_column pk)) [exPk None (js ''t'') (js ''id'')])
   \<and> \<not> primaryKey (hd (table_fields (hd (tablesOf (createTablesFromMetadata exEnv
       (exMd [exCol None (js ''t'') (js '' id'') 1 (js ''int'')] [] [exPk None (js ''t'') (js ''id'')]) 0)))))"
proof -
  let ?md = "exMd [exCol None (js ''t'') (js '' id'') 1 (js ''int'')] [] [exPk None (js ''t'') (js ''id'')]"
  obtain out tick' where r: "createTablesFromMetadata exEnv ?md 0 = Inr (out, tick')"
    using createTablesFromMetadata_returns [OF ex_own_no_index] by blast
  have pks: "tablePrimaryKeys ?md exTable = [js ''id'']"
    by (simp add: tablePrimaryKeys_def exMd_sel exPk_sel exTable_sel norm_simps trim_def
                  isWhiteSpace_def js_def)
  have cols: "specColumns ?md exTable = [exCol None (js ''t'') (js '' id'') 1 (js ''int'')]"
    by (simp add: specColumns_def exMd_sel describes_exTable exCol_sel norm_simps)
  have "table_fields (hd (tablesOf (createTablesFromMetadata exEnv ?md 0)))
          = [mkField exEnv [js ''id''] (specIndexGroups ?md exTable) 0
               (exCol None (js ''t'') (js '' id'') 1 (js ''int''))]"
    by (simp add: ex_run [OF r] buildTable_fields pks cols)
  then show ?thesis
    by (simp add: r mkField_sel exCol_sel exPk_sel ex_trim)
qed

text \<open>
  White space around the primary-key descriptor's column is ignored, whatever white space
  it is: the column \<open>id\<close> with the padded descriptor of \<open>exPaddedPks\<close> is a primary key; the
  primary key of another table does not count.
\<close>

theorem primaryKey_untrimmed_name_witness:
  "\<not> isl (createTablesFromMetadata exEnv
       (exMd [exCol None (js ''t'') (js ''id'') 1 (js ''int'')] [] exPaddedPks) 0)
   \<and> map (\<lambda>f. (field_name f, primaryKey f))
       (table_fields (hd (tablesOf (createTablesFromMetadata exEnv
         (exMd [exCol None (js ''t'') (js ''id'') 1 (js ''int'')] [] exPaddedPks) 0))))
     = [(js ''id'', True)]
   \<and> map (\<lambda>f. (field_name f, primaryKey f))
       (table_fields (hd (tablesOf (createTablesFromMetadata exEnv
         (exMd [exCol None (js ''t'') (js ''other'') 1 (js ''int'')] [] exPaddedPks) 0))))
     = [(js ''other'', False)]"
proof -
  let ?md = "exMd [exCol None (js ''t'') (js ''id'') 1 (js ''int'')] [] exPaddedPks"
  let ?md' = "exMd [exCol None (js ''t'') (js ''other'') 1 (js ''int'')] [] exPaddedPks"
  let ?fs = "table_fields (hd (tablesOf (createTablesFromMetadata exEnv ?md 0)))"
  let ?fs' = "table_fields (hd (tablesOf (createTablesFromMetadata exEnv ?md' 0)))"
  obtain out tick' where r: "createTablesFromMetadata exEnv ?md 0 = Inr (out, tick')"
    using createTablesFromMetadata_returns [OF ex_own_no_index] by blast
  obtain out' tick'' where r': "createTablesFromMetadata exEnv ?md' 0 = Inr (out', tick'')"
    using createTablesFromMetadata_returns [OF ex_own_no_index] by blast
  have "map field_name ?fs = [js ''id'']"
    by (simp add: ex_run_names [OF r] ex_id_names)
  then obtain f where fs: "?fs = [f]" and n: "field_name f = js ''id''"
    by (auto simp: map_eq_Cons_conv)
  have "map field_name ?fs' = [js ''other'']"
    by (simp add: ex_run_names [OF r'] ex_id_names)
  then obtain f' where fs': "?fs' = [f']" and n': "field_name f' = js ''other''"
    by (auto simp: map_eq_Cons_conv)
  from ex_single [OF r primaryKey_untrimmed_name [OF r]]
  have "primaryKey f"
    unfolding fs
    by (simp add: n exMd_sel exPaddedPks_def describes_exTable exPk_sel norm_simps ex_trim)
  moreover from ex_single [OF r' primaryKey_untrimmed_name [OF r']]
  have "\<not> primaryKey f'"
    unfolding fs'
    by (simp add: n' exMd_sel exPaddedPks_def describes_exTable exPk_sel norm_simps ex_trim)
  ultimately show ?thesis
    unfolding fs fs' by (simp add: n n' r r')
qed

text \<open>
  C8: for every built table, the aggregation keyed by the string \<open>schema_name\<close> yields the
  spec's groups of the table's raw index rows: one group per distinct pair (schema, index
  name) among the raw rows that belong to the descriptor, in order of first occurrence,
  holding the columns of exactly the rows with that pair; two raw rows of the table share a
  string key iff they share the pair; and each Index lists the ids of its group's columns
  sorted by declared column position (a column that names no field of the table is
  dropped).
\<close>

theorem indexes_grouped_by_schema_and_name:
  "createTablesFromMetadata env md tick = Inr (out, tick')
   \<Longrightarrow> list_all2 (\<lambda>t ti.
          map_sum id Object_values (aggregatedIndexes md ti) = Inr (specIndexGroups md ti)
        \<and> (\<forall>a \<in> set (indexes md). \<forall>b \<in> set (indexes md).
              describes ti (idx_schema a) (idx_table a) \<longrightarrow> describes ti (idx_schema b) (idx_table b)
              \<longrightarrow> (indexKey a = indexKey b) = (indexPair a = indexPair b))
        \<and> map indexShape (table_indexes t) = map (groupShape (table_fields t)) (specIndexGroups md ti))
        out (tableInfos md)"
  unfolding createTablesFromMetadata_def
proof (erule createTables_all2, intro conjI ballI impI)
  fix tick ti
  assume own: "\<forall>r \<in> set (specIndexRows md ti). indexKey r \<notin> set inheritedKeys"
  then show "map_sum id Object_values (aggregatedIndexes md ti) = Inr (specIndexGroups md ti)"
    by (simp add: aggregatedIndexes_result Object_values_def comp_def groups_key_pair)
  show "map indexShape (table_indexes (fst (buildTable env md tick ti (specIndexGroups md ti))))
          = map (groupShape (table_fields (fst (buildTable env md tick ti (specIndexGroups md ti)))))
                (specIndexGroups md ti)"
    by (simp add: buildTable_indexes mkIndexes_shape)
next
  fix tick ti a b
  assume "a \<in> set (indexes md)" "b \<in> set (indexes md)"
    "describes ti (idx_schema a) (idx_table a)" "describes ti (idx_schema b) (idx_table b)"
  then have "a \<in> set (specIndexRows md ti)" "b \<in> set (specIndexRows md ti)"
    by (simp_all add: specIndexRows_def)
  then show "(indexKey a = indexKey b) = (indexPair a = indexPair b)"
    by (rule specIndexRows_key_pair)
qed

lemma ex_group_own: "ownKeysOnly (exMd exGroupCols exGroupIdxs [])"
  by (simp add: ex_ownKeysOnly exGroupIdxs_def describes_exTable exIdx_sel norm_simps
                indexKey_def inheritedKeys_def)

lemma ex_group_cols:
  "specColumns (exMd exGroupCols idxs pks) exTable
     = [exCol None (js ''t'') (js ''c1'') 1 (js ''int''), exCol None (js ''t'') (js ''c2'') 2 (js ''int'')]"
  by (simp add: specColumns_def exMd_sel exGroupCols_def describes_exTable exCol_sel norm_simps)

lemma ex_group_groups:
  "specIndexGroups (exMd cols exGroupIdxs pks) exTable
     = [\<lparr>agg_info = exIdx None (js ''t'') (js ''a_b'') False (js ''c1'') 1,
         agg_columns = [(js ''c1'', 1), (js ''c2'', 0)]\<rparr>,
        \<lparr>agg_info = exIdx None (js ''t'') (js ''a'') True (js ''c2'') 1,
         agg_columns = [(js ''c2'', 1)]\<rparr>]"
  by (simp add: specIndexGroups_def specIndexRows_def exMd_sel exGroupIdxs_def describes_exTable
                exIdx_sel norm_simps indexPair_def groupOf_def colOf_def)

text \<open>
  Index names with the separator: \<open>a_b\<close> and \<open>a\<close> stay two indexes; the two rows of \<open>a_b\<close>
  are merged and ordered by position; the row of \<open>a\<close> of another table is in neither.
\<close>

theorem indexes_grouped_by_schema_and_name_witness:
  "\<not> isl (createTablesFromMetadata exEnv (exMd exGroupCols exGroupIdxs []) 0)
   \<and> map indexShape (table_indexes (hd (tablesOf (createTablesFromMetadata exEnv
        (exMd exGroupCols exGroupIdxs []) 0))))
       = [(js ''a_b'', False, [js ''iii'', js ''i'']), (js ''a'', True, [js ''iii''])]"
proof -
  let ?md = "exMd exGroupCols exGroupIdxs []"
  let ?t = "hd (tablesOf (createTablesFromMetadata exEnv ?md 0))"
  obtain out tick' where r: "createTablesFromMetadata exEnv ?md 0 = Inr (out, tick')"
    using createTablesFromMetadata_returns [OF ex_group_own] by blast
  have fs: "table_fields ?t
              = [mkField exEnv (tablePrimaryKeys ?md exTable) (specIndexGroups ?md exTable) 0
                   (exCol None (js ''t'') (js ''c1'') 1 (js ''int'')),
                 mkField exEnv (tablePrimaryKeys ?md exTable) (specIndexGroups ?md exTable) (Suc (Suc 0))
                   (exCol None (js ''t'') (js ''c2'') 2 (js ''int''))]"
    by (simp add: ex_run [OF r] buildTable_fields ex_group_cols)
  from ex_single [OF r indexes_grouped_by_schema_and_name [OF r]]
  have "map indexShape (table_indexes ?t)
          = map (groupShape (table_fields ?t)) (specIndexGroups ?md exTable)"
    by simp
  then show ?thesis
    unfolding fs ex_group_groups
    by (simp add: r groupShape_def exIdx_sel List.map_filter_simps resolveFieldId_def mkField_sel
                  exCol_sel exEnv_sel eval_nat_numeral)
qed

text \<open>
  C10, amended: whenever \<open>createTablesFromMetadata\<close> returns, the output has one table per
  descriptor, in the input order; the \<open>i\<close>-th table carries the \<open>i\<close>-th descriptor's table
  name, normalized schema, \<open>auditable\<close> and \<open>revisionEnabled\<close>, and its comment when that is
  a non-empty string (an empty or absent comment gives \<open>undefined\<close>); a descriptor that no
  column of the input matches gives a table with no field. It returns on every input in
  which no index row of a described table has a key that \<open>Object.prototype\<close> defines.
\<close>

theorem one_table_per_descriptor:
  "(ownKeysOnly md \<longrightarrow> \<not> isl (createTablesFromMetadata env md tick))
   \<and> (createTablesFromMetadata env md tick = Inr (out, tick')
      \<longrightarrow> map carried out = map described (tableInfos md)
        \<and> length out = length (tableInfos md)
        \<and> list_all2 (\<lambda>t ti. filter (\<lambda>c. describes ti (col_schema c) (col_table c)) (columns md) = []
                              \<longrightarrow> table_fields t = [])
             out (tableInfos md))"
proof (intro conjI impI)
  assume "ownKeysOnly md"
  from createTablesFromMetadata_returns [OF this, of env tick]
  show "\<not> isl (createTablesFromMetadata env md tick)" by auto
next
  assume run: "createTablesFromMetadata env md tick = Inr (out, tick')"
  have "list_all2 (\<lambda>t ti. carried t = described ti) out (tableInfos md)"
    using run unfolding createTablesFromMetadata_def
    by (rule createTables_all2) (simp add: buildTable_carried)
  then show m: "map carried out = map described (tableInfos md)"
    by (induction rule: list_all2_induct) simp_all
  from arg_cong [OF m, of length] show "length out = length (tableInfos md)" by simp
  show "list_all2 (\<lambda>t ti. filter (\<lambda>c. describes ti (col_schema c) (col_table c)) (columns md) = []
                              \<longrightarrow> table_fields t = [])
             out (tableInfos md)"
    using run unfolding createTablesFromMetadata_def
    by (rule createTables_all2) (simp add: buildTable_fields specColumns_def)
qed

text \<open>
  C10, as stated, has the table carry the descriptor's comment. The descriptor \<open>exTable\<close>
  has the comment \<open>''\<close>; the function returns, and
  \<open>tableInfo.comment ? tableInfo.comment : undefined\<close> gives the table no comment.
\<close>

theorem comment_carried_counterexample:
  "\<not> isl (createTablesFromMetadata exEnv (exMd [] [] []) 0)
   \<and> comments (hd (tablesOf (createTablesFromMetadata exEnv (exMd [] [] []) 0)))
       \<noteq> ti_comment (hd (tableInfos (exMd [] [] [])))"
proof -
  obtain out tick' where r: "createTablesFromMetadata exEnv (exMd [] [] []) 0 = Inr (out, tick')"
    using createTablesFromMetadata_returns [OF ex_own_no_index] by blast
  have "carried (hd (tablesOf (createTablesFromMetadata exEnv (exMd [] [] []) 0))) = described exTable"
    by (simp add: ex_run [OF r] buildTable_carried)
  then show ?thesis
    by (simp add: r carried_def described_def exTable_sel exMd_sel truthy_def)
qed

text \<open>
  Columns that exist and belong to another table or another schema: one table for the
  descriptor, with its name and flags, and no field.
\<close>

theorem one_table_per_descriptor_witness:
  "ownKeysOnly (exMd [exCol None (js ''u'') (js ''a'') 1 (js ''int''),
                      exCol (Some (js ''s'')) (js ''t'') (js ''b'') 2 (js ''int'')] [] [])
   \<and> map carried (tablesOf (createTablesFromMetadata exEnv
        (exMd [exCol None (js ''u'') (js ''a'') 1 (js ''int''),
               exCol (Some (js ''s'')) (js ''t'') (js ''b'') 2 (js ''int'')] [] []) 0))
       = [(js ''t'', None, None, True, False)]
   \<and> table_fields (hd (tablesOf (createTablesFromMetadata exEnv
        (exMd [exCol None (js ''u'') (js ''a'') 1 (js ''int''),
               exCol (Some (js ''s'')) (js ''t'') (js ''b'') 2 (js ''int'')] [] []) 0))) = []"
proof -
  let ?md = "exMd [exCol None (js ''u'') (js ''a'') 1 (js ''int''),
                   exCol (Some (js ''s'')) (js ''t'') (js ''b'') 2 (js ''int'')] [] []"
  have own: "ownKeysOnly ?md" by (rule ex_own_no_index)
  with one_table_per_descriptor [of ?md exEnv 0]
  obtain out tick' where r: "createTablesFromMetadata exEnv ?md 0 = Inr (out, tick')"
    by (cases "createTablesFromMetadata exEnv ?md 0") auto
  have none: "filter (\<lambda>c. describes exTable (col_schema c) (col_table c)) (columns ?md) = []"
    by (simp add: exMd_sel describes_exTable exCol_sel norm_simps)
  from one_table_per_descriptor [of ?md exEnv 0 out tick'] r
  have m: "map carried out = map described (tableInfos ?md)"
    and f: "list_all2 (\<lambda>t ti. filter (\<lambda>c. describes ti (col_schema c) (col_table c)) (columns ?md) = []
                              \<longrightarrow> table_fields t = []) out (tableInfos ?md)"
    by simp_all
  from ex_single [OF r f] none
  have "table_fields (hd (tablesOf (createTablesFromMetadata exEnv ?md 0))) = []" by simp
  with m own show ?thesis
    by (simp add: r tablesOf_Inr exMd_sel described_def exTable_sel truthy_def norm_simps)
qed

text \<open>
  The inherited key: an index row of table \<open>t\<close> with the empty schema and the name
  \<open>_proto__\<close> has the key \<open>__proto__\<close>, and \<open>createTablesFromMetadata\<close> throws.
\<close>

lemma inherited_key_throws:
  "indexKey (exIdx (Some []) (js ''t'') (js ''_proto__'') False (js ''x'') 1) = js ''__proto__''
   \<and> createTablesFromMetadata env (exMd cols exProtoIdxs pks) tick = Inl TypeError"
proof -
  have k: "indexKey (exIdx (Some []) (js ''t'') (js ''_proto__'') False (js ''x'') 1) = js ''__proto__''"
    by (simp add: indexKey_def exIdx_sel)
  have "\<not> ownKeysOnly (exMd cols exProtoIdxs pks)"
    by (simp add: ex_ownKeysOnly exProtoIdxs_def describes_exTable exIdx_sel norm_simps k
                  inheritedKeys_def)
  then show ?thesis
    using k by (simp add: createTablesFromMetadata_throws)
qed

section \<open>Properties of the layout\<close>

subsection \<open>The invariant of the placement\<close>

lemma spiral_Found_free:
  "spiral tp bx by tid a r n = Found p \<Longrightarrow> \<not> isOverlapping tp (fst p) (snd p) tid"
proof (induction tp bx "by" tid a r n rule: spiral.induct)
  case (1 tp baseX baseY tableId angle radius iterations)
  show ?case
  proof (cases "iterations < maxIterations")
    case False
    with "1.prems" show ?thesis by (simp add: spiral.simps)
  next
    case True
    show ?thesis
    proof (cases "isOverlapping tp (baseX + radius * cos angle) (baseY + radius * sin angle) tableId")
      case False
      with True "1.prems" show ?thesis by (auto simp: spiral.simps [of tp baseX baseY tableId angle radius iterations])
    next
      case ov: True
      show ?thesis
      proof (cases "angle + pi / 4 \<ge> 2 * pi")
        case True
        with \<open>iterations < maxIterations\<close> ov "1.prems" "1.IH"(1) show ?thesis
          by (simp add: spiral.simps [of tp baseX baseY tableId angle radius iterations])
      next
        case False
        with \<open>iterations < maxIterations\<close> ov "1.prems" "1.IH"(2) show ?thesis
          by (simp add: spiral.simps [of tp baseX baseY tableId angle radius iterations])
      qed
    qed
  qed
qed

lemma Map_set_fresh: "k \<notin> fst ` set tp \<Longrightarrow> Map_set k v tp = tp @ [(k, v)]"
  by (induction tp) auto

lemma overlaps_sym: "overlaps p q = overlaps q p"
  by (auto simp: overlaps_def abs_minus_commute)

lemma extends_refl: "extends s s"
  by (simp add: extends_def)

lemma extends_trans: "extends s s' \<Longrightarrow> extends s' s'' \<Longrightarrow> extends s s''"
  unfolding extends_def by (auto simp: subset_iff)

lemma table_id_unplaced: "table_id (unplaced t) = table_id t"
  by (simp add: unplaced_def)

lemma extends_ids: "extends s s' \<Longrightarrow> map table_id (tables s') = map table_id (tables s)"
proof -
  assume "extends s s'"
  then have "map unplaced (tables s') = map unplaced (tables s)" by (simp add: extends_def)
  then have "map table_id (map unplaced (tables s')) = map table_id (map unplaced (tables s))"
    by simp
  then show ?thesis by (simp add: comp_def table_id_unplaced)
qed

lemma extends_length: "extends s s' \<Longrightarrow> length (tables s') = length (tables s)"
  using extends_ids [of s s'] by (metis length_map)

lemma findIndex_Some: "findIndex P as = Some j \<Longrightarrow> j < length as \<and> P (as ! j)"
proof (induction as arbitrary: j)
  case Nil
  then show ?case by simp
next
  case (Cons a as)
  then show ?case by (cases "P a") auto
qed

lemma place_sel:
  "tablePositions (place i bx by s)
     = Map_set (table_id (tables s ! i)) (findNonOverlappingPosition (tablePositions s) bx by (table_id (tables s ! i)))
         (tablePositions s)"
  "positionedTables (place i bx by s) = insert (table_id (tables s ! i)) (positionedTables s)"
  "capReached (place i bx by s)
     = (if isCapReached (spiral (tablePositions s) bx by (table_id (tables s ! i)) 0 0 0)
        then insert (table_id (tables s ! i)) (capReached s) else capReached s)"
  "tables (place i bx by s)
     = (tables s)[i := (tables s ! i)
         \<lparr>table_x := fst (findNonOverlappingPosition (tablePositions s) bx by (table_id (tables s ! i))),
          table_y := snd (findNonOverlappingPosition (tablePositions s) bx by (table_id (tables s ! i)))\<rparr>]"
  "callerTables (place i bx by s) = callerTables s"
  "callerRelationships (place i bx by s) = callerRelationships s"
  by (simp_all add: place_def Let_def findNonOverlappingPosition_def)

lemma unplaced_update: "unplaced (t\<lparr>table_x := a, table_y := b\<rparr>) = unplaced t"
  by (simp add: unplaced_def)

lemma place_tables_unplaced: "map unplaced (tables (place i bx by s)) = map unplaced (tables s)"
proof (cases "i < length (tables s)")
  case True
  then show ?thesis
    by (simp add: place_sel map_update unplaced_update list_update_same_conv)
next
  case False
  then show ?thesis by (simp add: place_sel list_update_beyond not_less)
qed

lemma found_or_cap:
  "isCapReached r \<or> r = Found (resultPosition r)"
  by (cases r) simp_all

lemma place_wf:
  assumes "wf s" and "table_id (tables s ! i) \<notin> positionedTables s"
  shows "wf (place i bx by s)"
proof -
  let ?tid = "table_id (tables s ! i)"
  let ?r = "spiral (tablePositions s) bx by ?tid 0 0 0"
  let ?p = "findNonOverlappingPosition (tablePositions s) bx by ?tid"
  let ?s = "place i bx by s"
  from assms have keys: "fst ` set (tablePositions s) = positionedTables s"
    and dist: "distinct (map fst (tablePositions s))" and sep: "separated s"
    by (simp_all add: wf_def keysPlaced_def)
  from keys assms(2) have fresh: "?tid \<notin> fst ` set (tablePositions s)" by simp
  have tp: "tablePositions ?s = tablePositions s @ [(?tid, ?p)]"
    by (simp add: place_sel Map_set_fresh [OF fresh])
  have k: "keysPlaced ?s"
    unfolding keysPlaced_def tp using keys by (auto simp: place_sel(2))
  have d: "distinct (map fst (tablePositions ?s))"
    using dist fresh by (simp add: tp)
  have new: "fst e \<in> capReached ?s \<or> ?tid \<in> capReached ?s"
    if e: "e \<in> set (tablePositions s)" and ne: "fst e \<noteq> ?tid" and ov: "overlaps ?p (snd e)" for e
  proof (cases "isCapReached ?r")
    case True
    then show ?thesis by (simp add: place_sel)
  next
    case False
    then have "?r = Found ?p"
      using found_or_cap [of ?r] by (simp add: findNonOverlappingPosition_def)
    then have "\<not> isOverlapping (tablePositions s) (fst ?p) (snd ?p) ?tid"
      by (rule spiral_Found_free)
    with e ne ov show ?thesis
      by (auto simp: isOverlapping_def list_ex_iff split_beta)
  qed
  have old: "fst e \<in> capReached ?s \<or> fst e' \<in> capReached ?s"
    if "e \<in> set (tablePositions s)" "e' \<in> set (tablePositions s)" "fst e \<noteq> fst e'"
       "overlaps (snd e) (snd e')" for e e'
  proof -
    have "fst e \<in> capReached s \<or> fst e' \<in> capReached s"
      using sep that unfolding separated_def by blast
    moreover have "capReached s \<subseteq> capReached ?s"
      by (auto simp: place_sel(3))
    ultimately show ?thesis by blast
  qed
  have s: "separated ?s"
    unfolding separated_def tp
  proof (intro ballI impI)
    fix e e'
    assume e: "e \<in> set (tablePositions s @ [(?tid, ?p)])"
      and e': "e' \<in> set (tablePositions s @ [(?tid, ?p)])"
      and ne: "fst e \<noteq> fst e'" and ov: "overlaps (snd e) (snd e')"
    consider "e \<in> set (tablePositions s)" "e' \<in> set (tablePositions s)"
      | "e \<in> set (tablePositions s)" "e' = (?tid, ?p)"
      | "e = (?tid, ?p)" "e' \<in> set (tablePositions s)"
      | "e = (?tid, ?p)" "e' = (?tid, ?p)"
      using e e' by auto
    then show "fst e \<in> capReached ?s \<or> fst e' \<in> capReached ?s"
    proof cases
      case 1
      then show ?thesis using ne ov by (rule old)
    next
      case 2
      from ne 2(2) have n: "fst e \<noteq> ?tid" by simp
      from ov 2(2) have "overlaps (snd e) ?p" by simp
      then have o: "overlaps ?p (snd e)" by (simp only: overlaps_sym [of ?p])
      from new [OF 2(1) n o] show ?thesis by (simp add: 2(2))
    next
      case 3
      from ne 3(1) have n: "fst e' \<noteq> ?tid" by simp
      from ov 3(1) have o: "overlaps ?p (snd e')" by simp
      from new [OF 3(2) n o] show ?thesis by (auto simp: 3(1))
    next
      case 4
      then show ?thesis using ne by simp
    qed
  qed
  from k d s show ?thesis by (simp add: wf_def)
qed

lemma place_extends:
  assumes "wf s" and "table_id (tables s ! i) \<notin> positionedTables s"
  shows "extends s (place i bx by s)"
proof -
  let ?tid = "table_id (tables s ! i)"
  from assms have fresh: "?tid \<notin> fst ` set (tablePositions s)"
    by (simp add: wf_def keysPlaced_def)
  have "map_of (tablePositions (place i bx by s)) k = map_of (tablePositions s) k"
    if "k \<in> positionedTables s" for k
  proof -
    from that assms(2) have "k \<noteq> ?tid" by auto
    then show ?thesis
      by (simp add: place_sel Map_set_fresh [OF fresh] map_add_def split: option.splits)
  qed
  then show ?thesis
    unfolding extends_def
    by (auto simp: place_tables_unplaced place_sel(2,3,5,6))
qed

lemma positionTable_placeConnected_wf:
  "positionTable d m i bx by s = Some s' \<Longrightarrow> wf s \<Longrightarrow> wf s' \<and> extends s s'"
  "placeConnected d m px py st ids a s = Some s' \<Longrightarrow> wf s \<Longrightarrow> wf s' \<and> extends s s'"
proof (induction d m i bx "by" s and d m px py st ids a s arbitrary: s' and s'
       rule: positionTable_placeConnected.induct)
  case (1 m i baseX baseY s)
  then show ?case by simp
next
  case (2 depth m i baseX baseY s)
  show ?case
  proof (cases "table_id (tables s ! i) \<in> positionedTables s")
    case True
    with "2.prems" show ?thesis by (simp add: extends_refl)
  next
    case False
    let ?tid = "table_id (tables s ! i)"
    let ?p = "findNonOverlappingPosition (tablePositions s) baseX baseY ?tid"
    let ?c = "connectedTables m ?tid"
    from False "2.prems"(1)
    have run: "placeConnected depth m (fst ?p) (snd ?p) (2 * pi / real (length ?c)) ?c 0
                 (place i baseX baseY s) = Some s'"
      by (simp add: Let_def)
    have w: "wf (place i baseX baseY s)" and e: "extends s (place i baseX baseY s)"
      using place_wf place_extends "2.prems"(2) False by auto
    from "2.IH" [OF False refl refl refl refl run w]
    have "wf s' \<and> extends (place i baseX baseY s) s'" .
    with e show ?thesis using extends_trans by blast
  qed
next
  case (3 depth m px py angleStep angle s)
  then show ?case by (simp add: extends_refl)
next
  case (4 depth m px py angleStep connectedTableId rest angle s)
  show ?case
  proof (cases "connectedTableId \<notin> positionedTables s")
    case False
    with "4.prems" have "placeConnected depth m px py angleStep rest angle s = Some s'"
      by simp
    from "4.IH"(4) [OF False this "4.prems"(2)] show ?thesis .
  next
    case True
    show ?thesis
    proof (cases "findIndex (\<lambda>t. table_id t = connectedTableId) (tables s)")
      case None
      with True "4.prems" have "placeConnected depth m px py angleStep rest angle s = Some s'"
        by simp
      from "4.IH"(1) [OF True None this "4.prems"(2)] show ?thesis .
    next
      case (Some j)
      let ?bx = "px + cos angle * (tableWidth + gapX * 2)"
      let ?by = "py + sin angle * (tableHeight + gapY * 2)"
      from True Some "4.prems"(1) obtain s1 where
        p1: "positionTable depth m j ?bx ?by s = Some s1"
        and p2: "placeConnected depth m px py angleStep rest (angle + angleStep) s1 = Some s'"
        by (auto split: option.splits)
      from "4.IH"(2) [OF True Some p1 "4.prems"(2)]
      have w1: "wf s1" and e1: "extends s s1" by auto
      from "4.IH"(3) [OF True Some p1 p2 w1]
      have "wf s' \<and> extends s1 s'" .
      with e1 show ?thesis using extends_trans by blast
    qed
  qed
qed

lemma finite_unplacedIds: "finite (unplacedIds s)"
  by (simp add: unplacedIds_def)

lemma extends_unplacedIds: "extends s s' \<Longrightarrow> unplacedIds s' \<subseteq> unplacedIds s"
proof -
  assume e: "extends s s'"
  then have "set (map table_id (tables s')) = set (map table_id (tables s))"
    using extends_ids by metis
  then have "table_id ` set (tables s') = table_id ` set (tables s)" by simp
  moreover from e have "positionedTables s \<subseteq> positionedTables s'" by (simp add: extends_def)
  ultimately show ?thesis by (auto simp: unplacedIds_def)
qed

lemma extends_card: "extends s s' \<Longrightarrow> card (unplacedIds s') \<le> card (unplacedIds s)"
  by (simp add: card_mono extends_unplacedIds finite_unplacedIds)

lemma place_card:
  assumes "wf s" "i < length (tables s)" "table_id (tables s ! i) \<notin> positionedTables s"
    and "card (unplacedIds s) < Suc d"
  shows "card (unplacedIds (place i bx by s)) < d"
proof -
  let ?tid = "table_id (tables s ! i)"
  have ids: "table_id ` set (tables (place i bx by s)) = table_id ` set (tables s)"
    using extends_ids [OF place_extends [OF assms(1,3)], of bx "by"]
    by (metis set_map)
  have "unplacedIds (place i bx by s) = unplacedIds s - {?tid}"
    by (auto simp: unplacedIds_def ids place_sel(2))
  moreover have "?tid \<in> unplacedIds s"
    using assms(2,3) by (auto simp: unplacedIds_def)
  ultimately have "card (unplacedIds (place i bx by s)) = card (unplacedIds s) - 1"
    and "card (unplacedIds s) > 0"
    using finite_unplacedIds [of s] by (auto simp: card_gt_0_iff)
  with assms(4) show ?thesis by simp
qed

lemma positionTable_placeConnected_total:
  "wf s \<Longrightarrow> i < length (tables s) \<Longrightarrow> card (unplacedIds s) < d
     \<Longrightarrow> positionTable d m i bx by s \<noteq> None"
  "wf s \<Longrightarrow> card (unplacedIds s) < d \<Longrightarrow> placeConnected d m px py st ids a s \<noteq> None"
proof (induction d m i bx "by" s and d m px py st ids a s
       rule: positionTable_placeConnected.induct)
  case (1 m i baseX baseY s)
  then show ?case by simp
next
  case (2 depth m i baseX baseY s)
  show ?case
  proof (cases "table_id (tables s ! i) \<in> positionedTables s")
    case True
    then show ?thesis by simp
  next
    case False
    have w: "wf (place i baseX baseY s)"
      using place_wf "2.prems"(1) False by auto
    have c: "card (unplacedIds (place i baseX baseY s)) < depth"
      using place_card "2.prems" False by auto
    from "2.IH" [OF False refl refl refl refl w c] False show ?thesis
      by (simp add: Let_def)
  qed
next
  case (3 depth m px py angleStep angle s)
  then show ?case by simp
next
  case (4 depth m px py angleStep connectedTableId rest angle s)
  show ?case
  proof (cases "connectedTableId \<notin> positionedTables s")
    case False
    from "4.IH"(4) [OF False "4.prems"] False show ?thesis by simp
  next
    case True
    show ?thesis
    proof (cases "findIndex (\<lambda>t. table_id t = connectedTableId) (tables s)")
      case None
      from "4.IH"(1) [OF True None "4.prems"] True None show ?thesis by simp
    next
      case (Some j)
      let ?bx = "px + cos angle * (tableWidth + gapX * 2)"
      let ?by = "py + sin angle * (tableHeight + gapY * 2)"
      from Some have j: "j < length (tables s)" using findIndex_Some by fastforce
      from "4.IH"(2) [OF True Some "4.prems"(1) j "4.prems"(2)]
      obtain s1 where p1: "positionTable depth m j ?bx ?by s = Some s1" by auto
      from positionTable_placeConnected_wf(1) [OF p1 "4.prems"(1)]
      have w1: "wf s1" and e1: "extends s s1" by auto
      from extends_card [OF e1] "4.prems"(2) have c1: "card (unplacedIds s1) < depth" by simp
      from "4.IH"(3) [OF True Some p1 w1 c1] True Some p1 show ?thesis by simp
    qed
  qed
qed

lemma positionTable_places:
  assumes "positionTable d m i bx by s = Some s'" and "wf s"
  shows "table_id (tables s ! i) \<in> positionedTables s'"
proof (cases d)
  case 0
  with assms show ?thesis by simp
next
  case (Suc depth)
  show ?thesis
  proof (cases "table_id (tables s ! i) \<in> positionedTables s")
    case True
    with assms Suc show ?thesis by simp
  next
    case False
    let ?tid = "table_id (tables s ! i)"
    let ?p = "findNonOverlappingPosition (tablePositions s) bx by ?tid"
    let ?c = "connectedTables m ?tid"
    from False assms(1) Suc
    have run: "placeConnected depth m (fst ?p) (snd ?p) (2 * pi / real (length ?c)) ?c 0
                 (place i bx by s) = Some s'"
      by (simp add: Let_def)
    have "wf (place i bx by s)" using place_wf assms(2) False by auto
    from positionTable_placeConnected_wf(2) [OF run this]
    have "positionedTables (place i bx by s) \<subseteq> positionedTables s'"
      by (simp add: extends_def)
    then show ?thesis by (auto simp: place_sel(2))
  qed
qed

lemma seedTables_total:
  "wf s \<Longrightarrow> set is \<subseteq> {..<length (tables s)} \<Longrightarrow> card (unplacedIds s) < d
   \<Longrightarrow> \<exists>s'. seedTables d m k is s = Some s' \<and> wf s' \<and> extends s s'
            \<and> (\<forall>i \<in> set is. table_id (tables s ! i) \<in> positionedTables s')"
proof (induction "is" arbitrary: k s)
  case Nil
  then show ?case by (simp add: extends_refl)
next
  case (Cons i rest)
  from Cons.prems(2) have i: "i < length (tables s)" and rest: "set rest \<subseteq> {..<length (tables s)}"
    by auto
  show ?case
  proof (cases "table_id (tables s ! i) \<notin> positionedTables s")
    case False
    from Cons.IH [OF Cons.prems(1) rest Cons.prems(3), of "Suc k"]
    obtain s' where s': "seedTables d m (Suc k) rest s = Some s'" "wf s'" "extends s s'"
      "\<forall>i \<in> set rest. table_id (tables s ! i) \<in> positionedTables s'"
      by auto
    from s'(3) False have "table_id (tables s ! i) \<in> positionedTables s'"
      by (auto simp: extends_def)
    with s' False show ?thesis by simp
  next
    case True
    let ?bx = "fst (seedPosition k)"
    let ?by = "snd (seedPosition k)"
    from positionTable_placeConnected_total(1) [OF Cons.prems(1) i Cons.prems(3), of m ?bx ?by]
    obtain s1 where p1: "positionTable d m i ?bx ?by s = Some s1" by blast
    from positionTable_placeConnected_wf(1) [OF p1 Cons.prems(1)]
    have w1: "wf s1" and e1: "extends s s1" by auto
    have placed: "table_id (tables s ! i) \<in> positionedTables s1"
      using positionTable_places [OF p1 Cons.prems(1)] .
    have len: "length (tables s1) = length (tables s)" using extends_length [OF e1] .
    have c1: "card (unplacedIds s1) < d" using extends_card [OF e1] Cons.prems(3) by simp
    from rest len have rest1: "set rest \<subseteq> {..<length (tables s1)}" by simp
    from Cons.IH [OF w1 rest1 c1, of "Suc k"]
    obtain s' where s': "seedTables d m (Suc k) rest s1 = Some s'" "wf s'" "extends s1 s'"
      "\<forall>j \<in> set rest. table_id (tables s1 ! j) \<in> positionedTables s'"
      by auto
    have same: "table_id (tables s1 ! j) = table_id (tables s ! j)" if "j < length (tables s)" for j
    proof -
      have "map table_id (tables s1) ! j = map table_id (tables s) ! j"
        using extends_ids [OF e1] by simp
      with that len show ?thesis by simp
    qed
    have "\<forall>j \<in> set (i # rest). table_id (tables s ! j) \<in> positionedTables s'"
    proof
      fix j assume "j \<in> set (i # rest)"
      then consider "j = i" | "j \<in> set rest" by auto
      then show "table_id (tables s ! j) \<in> positionedTables s'"
      proof cases
        case 1
        with placed s'(3) show ?thesis by (auto simp: extends_def)
      next
        case 2
        with rest have "j < length (tables s)" by auto
        with 2 s'(4) same show ?thesis by auto
      qed
    qed
    moreover have "extends s s'" using e1 s'(3) by (rule extends_trans)
    ultimately show ?thesis using True p1 s'(1,2) by simp
  qed
qed

lemma initialState_tables: "tables (initialState tabs rels) = tabs"
  by (simp add: initialState_def deepCopy_def)

lemma wf_initialState: "wf (initialState tabs rels)"
  by (simp add: wf_def keysPlaced_def separated_def initialState_def deepCopy_def)

lemma set_sortedTables: "set (sortedTables m tabs) = {..<length tabs}"
  by (auto simp: sortedTables_def)

lemma card_unplaced_initial: "card (unplacedIds (initialState tabs rels)) < Suc (length tabs)"
proof -
  have "card (table_id ` set tabs) \<le> card (set tabs)" by (rule card_image_le) simp
  also have "\<dots> \<le> length tabs" by (rule card_length)
  finally show ?thesis by (simp add: unplacedIds_def initialState_def deepCopy_def)
qed

lemma layout_result:
  "\<exists>s1. layout tabs rels = Some (applyPositions s1) \<and> wf s1 \<and> extends (initialState tabs rels) s1
        \<and> table_id ` set (tables s1) \<subseteq> positionedTables s1"
proof -
  let ?m = "tableConnections (filteredRelationships tabs rels)"
  let ?s0 = "initialState tabs rels"
  have t0: "tables ?s0 = tabs" by (simp add: initialState_def deepCopy_def)
  have sub: "set (sortedTables ?m tabs) \<subseteq> {..<length (tables ?s0)}"
    by (simp add: set_sortedTables t0)
  have c: "card (unplacedIds ?s0) < Suc (length tabs)" by (rule card_unplaced_initial)
  from seedTables_total [OF wf_initialState sub c, of ?m 0]
  obtain s1 where run: "seedTables (Suc (length tabs)) ?m 0 (sortedTables ?m tabs) ?s0 = Some s1"
    and w: "wf s1" and e: "extends ?s0 s1"
    and all: "\<forall>i \<in> set (sortedTables ?m tabs). table_id (tables ?s0 ! i) \<in> positionedTables s1"
    by auto
  have ids: "map table_id (tables s1) = map table_id tabs"
    using extends_ids [OF e] by (simp add: t0)
  have "table_id ` set (tables s1) \<subseteq> positionedTables s1"
  proof
    fix a assume "a \<in> table_id ` set (tables s1)"
    then have "a \<in> set (map table_id (tables s1))" by simp
    then have "a \<in> set (map table_id tabs)" by (simp only: ids)
    then obtain i where "i < length tabs" "a = table_id (tabs ! i)"
      by (auto simp: in_set_conv_nth)
    with all show "a \<in> positionedTables s1"
      by (simp add: set_sortedTables t0)
  qed
  moreover have "layout tabs rels = Some (applyPositions s1)"
    using run by (simp add: layout_def layoutWithin_def deepCopy_def Let_def initialState_tables)
  ultimately show ?thesis using w e by blast
qed

lemma applyPositions_sel:
  "tablePositions (applyPositions s) = tablePositions s"
  "positionedTables (applyPositions s) = positionedTables s"
  "capReached (applyPositions s) = capReached s"
  by (simp_all add: applyPositions_def)

lemma applyPositions_unplaced: "map unplaced (tables (applyPositions s)) = map unplaced (tables s)"
  by (auto simp: applyPositions_def unplaced_update split: option.splits)

lemma applyPositions_placed:
  assumes "wf s" and "table_id ` set (tables s) \<subseteq> positionedTables s"
    and "t \<in> set (tables (applyPositions s))"
  shows "map_of (tablePositions s) (table_id t) = Some (table_x t, table_y t)"
proof -
  from assms(3) obtain t' where t': "t' \<in> set (tables s)"
    and t: "t = (case map_of (tablePositions s) (table_id t') of
                   Some p \<Rightarrow> t'\<lparr>table_x := fst p, table_y := snd p\<rparr> | None \<Rightarrow> t')"
    by (auto simp: applyPositions_def)
  from t' assms(2) have "table_id t' \<in> positionedTables s" by auto
  with assms(1) have "table_id t' \<in> fst ` set (tablePositions s)"
    by (simp add: wf_def keysPlaced_def)
  then obtain p where p: "map_of (tablePositions s) (table_id t') = Some p"
    by (metis map_of_eq_None_iff not_Some_eq)
  with t show ?thesis by simp
qed


lemma spiral_free_first:
  "\<not> isOverlapping tp bx by tid \<Longrightarrow> spiral tp bx by tid 0 0 0 = Found (bx, by)"
  by (simp add: spiral.simps [of tp bx "by" tid 0 0 0] maxIterations_def)

lemma find_free_first:
  "\<not> isOverlapping tp bx by tid \<Longrightarrow> findNonOverlappingPosition tp bx by tid = (bx, by)"
  by (simp add: findNonOverlappingPosition_def spiral_free_first)

lemma place_free:
  "\<not> isOverlapping (tablePositions s) bx by (table_id (tables s ! i)) \<Longrightarrow>
   place i bx by s =
     s\<lparr>tables := (tables s)[i := (tables s ! i)\<lparr>table_x := bx, table_y := by\<rparr>],
       tablePositions := Map_set (table_id (tables s ! i)) (bx, by) (tablePositions s),
       positionedTables := insert (table_id (tables s ! i)) (positionedTables s)\<rparr>"
  by (simp add: place_def Let_def spiral_free_first)

lemma exT_id: "table_id (exT n) = n"
  by (simp add: exT_def)

lemma exRel_sel: "sourceTableId (exRel a b) = a" "targetTableId (exRel a b) = b"
  by (simp_all add: exRel_def)

lemma exStar_connections:
  "tableConnections (filteredRelationships exStar exStarRels)
     = [(js ''A'') \<mapsto> [(js ''B''), (js ''C'')], (js ''B'') \<mapsto> [(js ''A'')], (js ''C'') \<mapsto> [(js ''A'')]]"
  by (simp add: tableConnections_def filteredRelationships_def exStar_def exStarRels_def exT_id
                exRel_sel addRelationship_def ensureKey_def addNeighbour_def Set_add_def fun_upd_twist)

lemma exStar_sorted:
  "sortedTables [(js ''A'') \<mapsto> [(js ''B''), (js ''C'')], (js ''B'') \<mapsto> [(js ''A'')], (js ''C'') \<mapsto> [(js ''A'')]] exStar = [1, 0, 2]"
  by (simp add: sortedTables_def exStar_def connectionCount_def exT_id upt_rec)

lemma geometry:
  "tableWidth = 200" "tableHeight = 300" "gapX = 100" "gapY = 100" "startX = 100" "startY = 100"
  by (simp_all add: tableWidth_def tableHeight_def gapX_def gapY_def startX_def startY_def)

lemma exStarMap_sel:
  "connectedTables exStarMap (js ''A'') = [(js ''B''), (js ''C'')]"
  "connectedTables exStarMap (js ''B'') = [(js ''A'')]"
  "connectedTables exStarMap (js ''C'') = [(js ''A'')]"
  by (simp_all add: connectedTables_def exStarMap_def)

lemma exStar_placeA: "place (Suc 0) 100 100 (initialState exStar exStarRels) = exStar1"
  by (simp add: initialState_def deepCopy_def exStar_def exStar1_def exT_id place_free isOverlapping_def)

lemma exStar_placeB: "place 0 500 100 exStar1 = exStar2"
  by (simp add: exStar1_def exStar2_def exT_id place_free isOverlapping_def overlaps_def geometry
                insert_commute)

lemma exStar_placeC: "place 2 (-300) 100 exStar2 = exStar3"
  by (simp add: exStar2_def exStar3_def exT_id place_free isOverlapping_def overlaps_def geometry
                insert_commute)

lemma exStar_ids:
  "table_id (tables exStar1 ! 0) = (js ''B'')" "table_id (tables exStar2 ! 2) = (js ''C'')"
  "table_id (tables (initialState exStar exStarRels) ! Suc 0) = (js ''A'')"
  "table_id (tables exStar3 ! 0) = (js ''B'')" "table_id (tables exStar3 ! 2) = (js ''C'')"
  by (simp_all add: exStar1_def exStar2_def exStar3_def initialState_def deepCopy_def exStar_def exT_id)

lemma exStar_find:
  "findIndex (\<lambda>t. table_id t = (js ''B'')) (tables exStar1) = Some 0"
  "findIndex (\<lambda>t. table_id t = (js ''C'')) (tables exStar2) = Some 2"
  by (simp_all add: exStar1_def exStar2_def exT_id)

lemma exStar_positioned:
  "positionedTables (initialState exStar exStarRels) = {}"
  "positionedTables exStar1 = {(js ''A'')}" "positionedTables exStar2 = {(js ''A''), (js ''B'')}"
  "positionedTables exStar3 = {(js ''A''), (js ''B''), (js ''C'')}"
  by (simp_all add: exStar1_def exStar2_def exStar3_def initialState_def deepCopy_def)

lemma exStar_tp:
  "tablePositions (initialState exStar exStarRels) = []"
  "tablePositions exStar1 = [(js ''A'', (100, 100))]"
  "tablePositions exStar2 = [(js ''A'', (100, 100)), (js ''B'', (500, 100))]"
  by (simp_all add: exStar1_def exStar2_def initialState_def deepCopy_def)

lemma exStar_posB: "positionTable (Suc d) exStarMap 0 500 100 exStar1 = Some exStar2"
  by (simp add: exStar_ids exStar_positioned exStar_tp Let_def exStarMap_sel exStar_placeB
                find_free_first isOverlapping_def overlaps_def geometry)

lemma exStar_posC: "positionTable (Suc d) exStarMap 2 (-300) 100 exStar2 = Some exStar3"
  by (simp add: exStar_ids exStar_positioned exStar_tp Let_def exStarMap_sel exStar_placeC
                find_free_first isOverlapping_def overlaps_def geometry)

lemma exStar_posA: "positionTable (Suc (Suc d)) exStarMap (Suc 0) 100 100 (initialState exStar exStarRels) = Some exStar3"
  by (subst positionTable.simps)
     (simp del: positionTable.simps
           add: exStar_ids exStar_positioned exStar_tp Let_def exStarMap_sel exStar_placeA
                find_free_first isOverlapping_def exStar_find exStar_posB exStar_posC geometry)

lemma exStar_seeded:
  "seedTables (Suc (Suc d)) exStarMap 0 [Suc 0, 0, 2] (initialState exStar exStarRels) = Some exStar3"
  by (simp del: positionTable.simps
           add: exStar_ids exStar_positioned seedPosition_def geometry exStar_posA)

lemma exStar_connections':
  "tableConnections (filteredRelationships exStar exStarRels) = exStarMap"
  by (simp add: exStar_connections exStarMap_def)

lemma exStar_sorted': "sortedTables exStarMap exStar = [Suc 0, 0, 2]"
  by (simp add: exStar_sorted exStarMap_def)

lemma exStar_apply: "applyPositions exStar3 = exStar3"
  by (simp add: applyPositions_def exStar3_def exT_id)

lemma exStar_layout: "layout exStar exStarRels = Some exStar3"
proof -
  have len: "length exStar = Suc (Suc (Suc 0))" by (simp add: exStar_def)
  have "layout exStar exStarRels
          = map_option applyPositions
              (seedTables (Suc (length exStar)) exStarMap 0 [Suc 0, 0, 2] (initialState exStar exStarRels))"
    by (simp only: layout_def layoutWithin_def deepCopy_def Let_def initialState_tables
                   exStar_connections' exStar_sorted')
  also have "\<dots> = Some exStar3"
    by (simp only: len exStar_seeded option.map exStar_apply)
  finally show ?thesis .
qed

lemma spiral_start: "spiralAngle 0 = 0" "spiralRadius 0 = 0"
  by (simp_all add: spiralAngle_def spiralRadius_def)

lemma spiral_next:
  assumes "n < maxIterations" and "overlapsAt tp bx by tid n"
  shows "spiral tp bx by tid (spiralAngle n) (spiralRadius n) n
           = spiral tp bx by tid (spiralAngle (Suc n)) (spiralRadius (Suc n)) (Suc n)"
proof -
  have ov: "isOverlapping tp (bx + spiralRadius n * cos (spiralAngle n))
              (by + spiralRadius n * sin (spiralAngle n)) tid"
    using assms(2) by (simp add: overlapsAt_def spiralPoint_def)
  have m: "n mod 8 < 8" by simp
  show ?thesis
  proof (cases "n mod 8 = 7")
    case True
    then have turn: "spiralAngle n + pi / 4 \<ge> 2 * pi"
      by (simp add: spiralAngle_def)
    from True have "Suc n mod 8 = 0" by (simp add: mod_Suc)
    moreover from this have "Suc n div 8 = Suc (n div 8)" by (simp add: div_Suc)
    ultimately have nxt: "spiralAngle (Suc n) = 0" "spiralRadius (Suc n) = spiralRadius n + spiralStep"
      by (simp_all add: spiralAngle_def spiralRadius_def algebra_simps)
    show ?thesis
      by (subst spiral.simps) (simp add: assms(1) ov turn nxt)
  next
    case False
    with m have lt: "n mod 8 < 7" by linarith
    then have "real (n mod 8) < 7" by simp
    then have "real (n mod 8) * (pi / 4) + pi / 4 < 2 * pi"
      using pi_gt_zero by (simp add: field_simps)
    then have noturn: "\<not> spiralAngle n + pi / 4 \<ge> 2 * pi"
      by (simp add: spiralAngle_def)
    from lt have s: "Suc n mod 8 = Suc (n mod 8)" by (simp add: mod_Suc)
    then have "Suc n div 8 = n div 8" by (simp add: div_Suc)
    with s have nxt: "spiralAngle (Suc n) = spiralAngle n + pi / 4" "spiralRadius (Suc n) = spiralRadius n"
      by (simp_all add: spiralAngle_def spiralRadius_def algebra_simps)
    show ?thesis
      by (subst spiral.simps) (simp add: assms(1) ov noturn nxt)
  qed
qed

lemma spiral_cap:
  "n \<le> maxIterations \<Longrightarrow> (\<forall>k. n \<le> k \<and> k < maxIterations \<longrightarrow> overlapsAt tp bx by tid k)
   \<Longrightarrow> spiral tp bx by tid (spiralAngle n) (spiralRadius n) n
         = CapReached (spiralPoint bx by maxIterations)"
proof (induction "maxIterations - n" arbitrary: n)
  case 0
  then have "n = maxIterations" by simp
  then show ?case
    by (subst spiral.simps) (simp add: spiralPoint_def)
next
  case (Suc d)
  then have lt: "n < maxIterations" by simp
  with Suc.prems(2) have "overlapsAt tp bx by tid n" by simp
  from spiral_next [OF lt this]
  have "spiral tp bx by tid (spiralAngle n) (spiralRadius n) n
          = spiral tp bx by tid (spiralAngle (Suc n)) (spiralRadius (Suc n)) (Suc n)" .
  also have "\<dots> = CapReached (spiralPoint bx by maxIterations)"
  proof (rule Suc.hyps(1))
    show "d = maxIterations - Suc n" using Suc.hyps(2) by simp
    show "Suc n \<le> maxIterations" using lt by simp
    show "\<forall>k. Suc n \<le> k \<and> k < maxIterations \<longrightarrow> overlapsAt tp bx by tid k"
      using Suc.prems(2) by simp
  qed
  finally show ?case .
qed

lemma spiral_found:
  "n \<le> k \<Longrightarrow> k < maxIterations \<Longrightarrow> (\<forall>j. n \<le> j \<and> j < k \<longrightarrow> overlapsAt tp bx by tid j)
   \<Longrightarrow> \<not> overlapsAt tp bx by tid k
   \<Longrightarrow> spiral tp bx by tid (spiralAngle n) (spiralRadius n) n = Found (spiralPoint bx by k)"
proof (induction "k - n" arbitrary: n)
  case 0
  then have nk: "n = k" by simp
  from 0(5) have "\<not> isOverlapping tp (bx + spiralRadius k * cos (spiralAngle k))
              (by + spiralRadius k * sin (spiralAngle k)) tid"
    by (simp add: overlapsAt_def spiralPoint_def)
  with 0(3) show ?case
    unfolding nk by (subst spiral.simps) (simp add: spiralPoint_def)
next
  case (Suc d)
  then have lt: "n < k" by simp
  with Suc.prems(2) have ltm: "n < maxIterations" by simp
  from lt Suc.prems(3) have "overlapsAt tp bx by tid n" by simp
  from spiral_next [OF ltm this]
  have "spiral tp bx by tid (spiralAngle n) (spiralRadius n) n
          = spiral tp bx by tid (spiralAngle (Suc n)) (spiralRadius (Suc n)) (Suc n)" .
  also have "\<dots> = Found (spiralPoint bx by k)"
  proof (rule Suc.hyps(1))
    show "d = k - Suc n" using Suc.hyps(2) by simp
    show "Suc n \<le> k" using lt by simp
    show "k < maxIterations" by (rule Suc.prems(2))
    show "\<forall>j. Suc n \<le> j \<and> j < k \<longrightarrow> overlapsAt tp bx by tid j"
      using Suc.prems(3) by simp
    show "\<not> overlapsAt tp bx by tid k" by (rule Suc.prems(4))
  qed
  finally show ?case .
qed

lemma spiral_result:
  "(\<exists>k < maxIterations. spiral tp bx by tid 0 0 0 = Found (spiralPoint bx by k)
       \<and> \<not> overlapsAt tp bx by tid k \<and> (\<forall>j < k. overlapsAt tp bx by tid j))
   \<or> (spiral tp bx by tid 0 0 0 = CapReached (spiralPoint bx by maxIterations)
       \<and> (\<forall>j < maxIterations. overlapsAt tp bx by tid j))"
proof (cases "\<exists>k < maxIterations. \<not> overlapsAt tp bx by tid k")
  case False
  then have all: "\<forall>j < maxIterations. overlapsAt tp bx by tid j" by blast
  then have "spiral tp bx by tid (spiralAngle 0) (spiralRadius 0) 0
               = CapReached (spiralPoint bx by maxIterations)"
    by (intro spiral_cap) simp_all
  with all show ?thesis by (simp add: spiral_start)
next
  case True
  define P where "P k \<longleftrightarrow> k < maxIterations \<and> \<not> overlapsAt tp bx by tid k" for k
  from True have "\<exists>k. P k" by (auto simp: P_def)
  then obtain k where k: "P k" and least: "\<forall>j < k. \<not> P j"
    using exists_least_iff [of P] by blast
  from k have km: "k < maxIterations" and free: "\<not> overlapsAt tp bx by tid k"
    by (simp_all add: P_def)
  from least km have before: "\<forall>j < k. overlapsAt tp bx by tid j"
    by (auto simp: P_def)
  then have "spiral tp bx by tid (spiralAngle 0) (spiralRadius 0) 0 = Found (spiralPoint bx by k)"
    using km free by (intro spiral_found) simp_all
  with km free before show ?thesis by (auto simp: spiral_start)
qed

lemma spiralPoint_cap: "spiralPoint bx by maxIterations = (bx + 18750, by)"
  by (simp add: spiralPoint_def spiralAngle_def spiralRadius_def maxIterations_def spiralStep_def
                geometry)

lemma depth_mono:
  "positionTable d m i bx by s = Some s' \<Longrightarrow> d \<le> d' \<Longrightarrow> positionTable d' m i bx by s = Some s'"
  "placeConnected d m px py st ids a s = Some s' \<Longrightarrow> d \<le> d'
     \<Longrightarrow> placeConnected d' m px py st ids a s = Some s'"
proof (induction d m i bx "by" s and d m px py st ids a s arbitrary: s' d' and s' d'
       rule: positionTable_placeConnected.induct)
  case (1 m i baseX baseY s)
  then show ?case by simp
next
  case (2 depth m i baseX baseY s)
  from "2.prems"(2) obtain e where d': "d' = Suc e" and e: "depth \<le> e"
    by (cases d') auto
  show ?case
  proof (cases "table_id (tables s ! i) \<in> positionedTables s")
    case True
    with "2.prems"(1) show ?thesis by (simp add: d')
  next
    case False
    let ?tid = "table_id (tables s ! i)"
    let ?p = "findNonOverlappingPosition (tablePositions s) baseX baseY ?tid"
    let ?c = "connectedTables m ?tid"
    from False "2.prems"(1)
    have run: "placeConnected depth m (fst ?p) (snd ?p) (2 * pi / real (length ?c)) ?c 0
                 (place i baseX baseY s) = Some s'"
      by (simp add: Let_def)
    from "2.IH" [OF False refl refl refl refl run e] False show ?thesis
      by (simp add: d' Let_def)
  qed
next
  case (3 depth m px py angleStep angle s)
  then show ?case by simp
next
  case (4 depth m px py angleStep connectedTableId rest angle s)
  show ?case
  proof (cases "connectedTableId \<notin> positionedTables s")
    case False
    with "4.prems" have "placeConnected depth m px py angleStep rest angle s = Some s'"
      by simp
    from "4.IH"(4) [OF False this "4.prems"(2)] False show ?thesis by simp
  next
    case True
    show ?thesis
    proof (cases "findIndex (\<lambda>t. table_id t = connectedTableId) (tables s)")
      case None
      with True "4.prems" have "placeConnected depth m px py angleStep rest angle s = Some s'"
        by simp
      from "4.IH"(1) [OF True None this "4.prems"(2)] True None show ?thesis by simp
    next
      case (Some j)
      let ?bx = "px + cos angle * (tableWidth + gapX * 2)"
      let ?by = "py + sin angle * (tableHeight + gapY * 2)"
      from True Some "4.prems"(1) obtain s1 where
        p1: "positionTable depth m j ?bx ?by s = Some s1"
        and p2: "placeConnected depth m px py angleStep rest (angle + angleStep) s1 = Some s'"
        by (auto split: option.splits)
      from "4.IH"(2) [OF True Some p1 "4.prems"(2)]
      have q1: "positionTable d' m j ?bx ?by s = Some s1" .
      from "4.IH"(3) [OF True Some p1 p2 "4.prems"(2)]
      have q2: "placeConnected d' m px py angleStep rest (angle + angleStep) s1 = Some s'" .
      from q1 q2 True Some show ?thesis by simp
    qed
  qed
qed

lemma seedTables_depth_mono:
  "seedTables d m k is s = Some s' \<Longrightarrow> d \<le> d' \<Longrightarrow> seedTables d' m k is s = Some s'"
proof (induction "is" arbitrary: k s)
  case Nil
  then show ?case by simp
next
  case (Cons i rest)
  show ?case
  proof (cases "table_id (tables s ! i) \<notin> positionedTables s")
    case False
    with Cons show ?thesis by simp
  next
    case True
    with Cons.prems(1) obtain s1 where
      p1: "positionTable d m i (fst (seedPosition k)) (snd (seedPosition k)) s = Some s1"
      and p2: "seedTables d m (Suc k) rest s1 = Some s'"
      by (auto split: option.splits)
    from depth_mono(1) [OF p1 Cons.prems(2)] Cons.IH [OF p2 Cons.prems(2)] True
    show ?thesis by simp
  qed
qed

lemma layoutWithin_depth:
  assumes "length tabs < d"
  shows "layoutWithin d tabs rels = layout tabs rels"
proof -
  let ?m = "tableConnections (filteredRelationships tabs rels)"
  from layout_result [of tabs rels] obtain s where "layout tabs rels = Some s" by blast
  then obtain s1 where
    run: "seedTables (Suc (length tabs)) ?m 0 (sortedTables ?m tabs) (initialState tabs rels) = Some s1"
    and s: "layout tabs rels = Some (applyPositions s1)"
    by (auto simp: layout_def layoutWithin_def deepCopy_def Let_def initialState_tables)
  from assms have "Suc (length tabs) \<le> d" by simp
  from seedTables_depth_mono [OF run this] s show ?thesis
    by (simp add: layoutWithin_def deepCopy_def Let_def initialState_tables)
qed

lemma seedTables_wf:
  "seedTables d m k is s = Some s' \<Longrightarrow> wf s \<Longrightarrow> wf s' \<and> extends s s'"
proof (induction "is" arbitrary: k s)
  case Nil
  then show ?case by (simp add: extends_refl)
next
  case (Cons i rest)
  show ?case
  proof (cases "table_id (tables s ! i) \<notin> positionedTables s")
    case False
    with Cons show ?thesis by simp
  next
    case True
    with Cons.prems(1) obtain s1 where
      p1: "positionTable d m i (fst (seedPosition k)) (snd (seedPosition k)) s = Some s1"
      and p2: "seedTables d m (Suc k) rest s1 = Some s'"
      by (auto split: option.splits)
    from positionTable_placeConnected_wf(1) [OF p1 Cons.prems(2)]
    have w1: "wf s1" and e1: "extends s s1" by auto
    from Cons.IH [OF p2 w1] have "wf s'" and "extends s1 s'" by auto
    with e1 show ?thesis using extends_trans by blast
  qed
qed

lemma map_of_Map_set: "map_of (Map_set k v tp) k = Some v"
  by (induction tp) auto

lemma seedPosition_value:
  "seedPosition k = (100 + 400 * real (k mod 6), 100 + 500 * real (k div 6))"
  by (simp add: seedPosition_def geometry)

lemma seed_row: "(snd (seedPosition j) = snd (seedPosition k)) = (j div 6 = k div 6)"
  by (simp add: seedPosition_value)

lemma seed_row_six: "{j::nat. j div 6 = r} = {6 * r ..< 6 * r + 6}"
proof (rule set_eqI)
  fix j :: nat
  have "(j div 6 = r) = (6 * r \<le> j \<and> j < 6 * r + 6)"
  proof
    assume "j div 6 = r"
    then have "j = 6 * r + j mod 6" by (metis mult_div_mod_eq)
    moreover have "j mod 6 < 6" by simp
    ultimately show "6 * r \<le> j \<and> j < 6 * r + 6" by linarith
  next
    assume "6 * r \<le> j \<and> j < 6 * r + 6"
    then show "j div 6 = r" by (intro div_nat_eqI) simp_all
  qed
  then show "j \<in> {j. j div 6 = r} \<longleftrightarrow> j \<in> {6 * r ..< 6 * r + 6}"
    by (simp only: mem_Collect_eq atLeastLessThan_iff)
qed

lemma applyPositions_caller:
  "callerTables (applyPositions s) = callerTables s"
  "callerRelationships (applyPositions s) = callerRelationships s"
  by (simp_all add: applyPositions_def)

lemma unplaced_same: "unplaced a = unplaced b \<Longrightarrow> sameButPosition a b"
  by (cases a, cases b) (simp add: unplaced_def sameButPosition_def)

lemma unplaced_all_same:
  "map unplaced as = map unplaced bs \<Longrightarrow> list_all2 sameButPosition as bs"
proof (induction as arbitrary: bs)
  case Nil
  then show ?case by simp
next
  case (Cons a as)
  then obtain b bs' where "bs = b # bs'" by (cases bs) auto
  with Cons show ?case by (simp add: unplaced_same)
qed

lemma positionTable_at:
  assumes "positionTable d m i bx by s = Some s'" and "wf s"
    and "table_id (tables s ! i) \<notin> positionedTables s"
  shows "map_of (tablePositions s') (table_id (tables s ! i))
           = Some (findNonOverlappingPosition (tablePositions s) bx by (table_id (tables s ! i)))"
proof (cases d)
  case 0
  with assms(1) show ?thesis by simp
next
  case (Suc depth)
  let ?tid = "table_id (tables s ! i)"
  let ?p = "findNonOverlappingPosition (tablePositions s) bx by ?tid"
  let ?c = "connectedTables m ?tid"
  from assms(1,3) Suc
  have run: "placeConnected depth m (fst ?p) (snd ?p) (2 * pi / real (length ?c)) ?c 0
               (place i bx by s) = Some s'"
    by (simp add: Let_def)
  have "wf (place i bx by s)" using place_wf assms(2,3) by auto
  from positionTable_placeConnected_wf(2) [OF run this]
  have "extends (place i bx by s) s'" by simp
  moreover have "?tid \<in> positionedTables (place i bx by s)" by (simp add: place_sel(2))
  ultimately have "map_of (tablePositions s') ?tid = map_of (tablePositions (place i bx by s)) ?tid"
    by (simp add: extends_def)
  also have "\<dots> = Some ?p"
    by (simp add: place_sel(1) map_of_Map_set findNonOverlappingPosition_def)
  finally show ?thesis .
qed

lemma seed_at:
  assumes "seedTables d m k (i # rest) s = Some s'" and "wf s"
    and "table_id (tables s ! i) \<notin> positionedTables s"
  shows "map_of (tablePositions s') (table_id (tables s ! i))
           = Some (findNonOverlappingPosition (tablePositions s)
                     (fst (seedPosition k)) (snd (seedPosition k)) (table_id (tables s ! i)))"
proof -
  let ?tid = "table_id (tables s ! i)"
  from assms(1,3) obtain s1 where
    p1: "positionTable d m i (fst (seedPosition k)) (snd (seedPosition k)) s = Some s1"
    and p2: "seedTables d m (Suc k) rest s1 = Some s'"
    by (auto split: option.splits)
  note at = positionTable_at [OF p1 assms(2,3)]
  from positionTable_placeConnected_wf(1) [OF p1 assms(2)] have w1: "wf s1" by simp
  from positionTable_places [OF p1 assms(2)] have "?tid \<in> positionedTables s1" .
  moreover from seedTables_wf [OF p2 w1] have "extends s1 s'" by simp
  ultimately have "map_of (tablePositions s') ?tid = map_of (tablePositions s1) ?tid"
    by (simp add: extends_def)
  with at show ?thesis by simp
qed

lemma spiralPoint_bounds:
  assumes "k < maxIterations"
  shows "\<bar>fst (spiralPoint bx by k) - bx\<bar> \<le> 18600" "\<bar>snd (spiralPoint bx by k) - by\<bar> \<le> 18600"
proof -
  from assms have "k div 8 \<le> 124" by (simp add: maxIterations_def)
  then have "real (k div 8) \<le> 124" by simp
  then have r: "spiralRadius k \<le> 18600" and r0: "0 \<le> spiralRadius k"
    by (simp_all add: spiralRadius_def spiralStep_def geometry)
  have "\<bar>spiralRadius k * cos (spiralAngle k)\<bar> \<le> spiralRadius k * 1"
    unfolding abs_mult using r0 by (intro mult_mono) simp_all
  with r show "\<bar>fst (spiralPoint bx by k) - bx\<bar> \<le> 18600" by (simp add: spiralPoint_def)
  have "\<bar>spiralRadius k * sin (spiralAngle k)\<bar> \<le> spiralRadius k * 1"
    unfolding abs_mult using r0 by (intro mult_mono) simp_all
  with r show "\<bar>snd (spiralPoint bx by k) - by\<bar> \<le> 18600" by (simp add: spiralPoint_def)
qed

lemma cover_x:
  fixes u :: real
  assumes "\<bar>u\<bar> \<le> 18600"
  shows "\<exists>a<125. \<bar>u - 300 * (real a - 62)\<bar> \<le> 150"
proof -
  define z where "z = round (u / 300)"
  have r: "\<bar>of_int z - u / 300\<bar> \<le> 1 / 2" unfolding z_def by (rule of_int_round_abs_le)
  from assms have "\<bar>u / 300\<bar> \<le> 62" by simp
  with r have "(of_int z :: real) < 63" "- 63 < (of_int z :: real)" by linarith+
  then have z: "- 62 \<le> z" "z \<le> 62" by linarith+
  define a where "a = nat (z + 62)"
  have ra: "real a = of_int z + 62" using z by (simp add: a_def)
  have "a < 125" using z by (simp add: a_def)
  moreover have "\<bar>u - 300 * (real a - 62)\<bar> \<le> 150"
  proof -
    have "u - 300 * (real a - 62) = 300 * (u / 300 - of_int z)" by (simp add: ra)
    then have "\<bar>u - 300 * (real a - 62)\<bar> = \<bar>300 * (u / 300 - of_int z)\<bar>" by (simp only:)
    also have "\<dots> = 300 * \<bar>of_int z - u / 300\<bar>"
      by (subst abs_mult) (simp add: abs_minus_commute)
    also have "\<dots> \<le> 300 * (1 / 2)" using r by (intro mult_left_mono) simp_all
    finally show ?thesis by simp
  qed
  ultimately show ?thesis by blast
qed

lemma cover_y:
  fixes v :: real
  assumes "\<bar>v\<bar> \<le> 18600"
  shows "\<exists>b<95. \<bar>v - 400 * (real b - 47)\<bar> \<le> 200"
proof -
  define z where "z = round (v / 400)"
  have r: "\<bar>of_int z - v / 400\<bar> \<le> 1 / 2" unfolding z_def by (rule of_int_round_abs_le)
  from assms have "\<bar>v / 400\<bar> \<le> 93 / 2" by simp
  with r have "(of_int z :: real) < 48" "- 48 < (of_int z :: real)" by linarith+
  then have z: "- 47 \<le> z" "z \<le> 47" by linarith+
  define b where "b = nat (z + 47)"
  have rb: "real b = of_int z + 47" using z by (simp add: b_def)
  have "b < 95" using z by (simp add: b_def)
  moreover have "\<bar>v - 400 * (real b - 47)\<bar> \<le> 200"
  proof -
    have "v - 400 * (real b - 47) = 400 * (v / 400 - of_int z)" by (simp add: rb)
    then have "\<bar>v - 400 * (real b - 47)\<bar> = \<bar>400 * (v / 400 - of_int z)\<bar>" by (simp only:)
    also have "\<dots> = 400 * \<bar>of_int z - v / 400\<bar>"
      by (subst abs_mult) (simp add: abs_minus_commute)
    also have "\<dots> \<le> 400 * (1 / 2)" using r by (intro mult_left_mono) simp_all
    finally show ?thesis by simp
  qed
  ultimately show ?thesis by blast
qed

lemma exGrid_mem: "a < 125 \<Longrightarrow> b < 95 \<Longrightarrow> exGridEntry a b \<in> set exGrid"
  unfolding exGrid_def by (simp, intro bexI [of _ a] imageI) simp_all

lemma exGrid_cases: "e \<in> set exGrid \<Longrightarrow> \<exists>a b. e = exGridEntry a b"
  by (auto simp: exGrid_def)

lemma exGridEntry_sel:
  "fst (exGridEntry a b) \<noteq> js ''t''"
  "snd (exGridEntry a b) = (100 + 300 * (real a - 62), 100 + 400 * (real b - 47))"
  by (simp_all add: exGridEntry_def js_def)

lemma exGrid_overlaps:
  assumes "k < maxIterations"
  shows "overlapsAt exGrid 100 100 (js ''t'') k"
proof -
  let ?x = "fst (spiralPoint 100 100 k)" and ?y = "snd (spiralPoint 100 100 k)"
  from cover_x [OF spiralPoint_bounds(1) [OF assms, of 100 100]]
  obtain a where a: "a < 125" "\<bar>?x - 100 - 300 * (real a - 62)\<bar> \<le> 150" by blast
  from cover_y [OF spiralPoint_bounds(2) [OF assms, of 100 100]]
  obtain b where b: "b < 95" "\<bar>?y - 100 - 400 * (real b - 47)\<bar> \<le> 200" by blast
  have "exGridEntry a b \<in> set exGrid" using a(1) b(1) by (rule exGrid_mem)
  moreover have "overlaps (?x, ?y) (snd (exGridEntry a b))"
  proof -
    from a(2) have "\<bar>?x - (100 + 300 * (real a - 62))\<bar> < 300" by linarith
    moreover from b(2) have "\<bar>?y - (100 + 400 * (real b - 47))\<bar> < 400" by linarith
    ultimately show ?thesis by (simp add: overlaps_def geometry exGridEntry_sel)
  qed
  ultimately show ?thesis
    unfolding overlapsAt_def isOverlapping_def list_ex_iff
    by (intro bexI [of _ "exGridEntry a b"]) (simp_all add: case_prod_beta exGridEntry_sel)
qed

lemma exGrid_cap: "spiral exGrid 100 100 (js ''t'') 0 0 0 = CapReached (18850, 100)"
proof -
  have "spiral exGrid 100 100 (js ''t'') (spiralAngle 0) (spiralRadius 0) 0
          = CapReached (spiralPoint 100 100 maxIterations)"
    by (rule spiral_cap) (simp_all add: exGrid_overlaps)
  then show ?thesis by (simp add: spiral_start spiralPoint_cap)
qed

lemma exGrid_apart:
  assumes "e \<in> set exGrid" "e' \<in> set exGrid" "fst e \<noteq> fst e'"
  shows "\<not> overlaps (snd e) (snd e')"
proof -
  from assms(1) obtain a b where e: "e = exGridEntry a b" using exGrid_cases by blast
  from assms(2) obtain a' b' where e': "e' = exGridEntry a' b'" using exGrid_cases by blast
  from assms(3) have "a \<noteq> a' \<or> b \<noteq> b'" unfolding e e' by auto
  then show ?thesis
  proof
    assume "a \<noteq> a'"
    then have "a + 1 \<le> a' \<or> a' + 1 \<le> a" by auto
    then have "real (a + 1) \<le> real a' \<or> real (a' + 1) \<le> real a" by (simp only: of_nat_le_iff)
    then have "real a + 1 \<le> real a' \<or> real a' + 1 \<le> real a" by (simp add: add.commute)
    then have "\<not> \<bar>(100 + 300 * (real a - 62)) - (100 + 300 * (real a' - 62))\<bar> < 300"
      by (auto simp: abs_less_iff)
    then show ?thesis by (simp add: e e' exGridEntry_sel overlaps_def geometry)
  next
    assume "b \<noteq> b'"
    then have "b + 1 \<le> b' \<or> b' + 1 \<le> b" by auto
    then have "real (b + 1) \<le> real b' \<or> real (b' + 1) \<le> real b" by (simp only: of_nat_le_iff)
    then have "real b + 1 \<le> real b' \<or> real b' + 1 \<le> real b" by (simp add: add.commute)
    then have "\<not> \<bar>(100 + 400 * (real b - 47)) - (100 + 400 * (real b' - 47))\<bar> < 400"
      by (auto simp: abs_less_iff)
    then show ?thesis by (simp add: e e' exGridEntry_sel overlaps_def geometry)
  qed
qed

lemma exPair_connections: "tableConnections (filteredRelationships exPair []) = Map.empty"
  by (simp add: tableConnections_def filteredRelationships_def)

lemma exPair_sorted: "sortedTables Map.empty exPair = [0, Suc 0]"
  by (simp add: sortedTables_def exPair_def connectionCount_def upt_rec)

lemma exPair_placeP: "place 0 100 100 (initialState exPair []) = exPair1"
  by (simp add: initialState_def deepCopy_def exPair_def exPair1_def exT_id place_free isOverlapping_def)

lemma exPair_placeQ: "place (Suc 0) 500 100 exPair1 = exPair2"
  by (simp add: exPair1_def exPair2_def exT_id place_free isOverlapping_def overlaps_def geometry
                insert_commute)

lemma exPair_ids:
  "table_id (tables (initialState exPair []) ! 0) = js ''P''"
  "table_id (tables exPair1 ! 0) = js ''P''"
  "table_id (tables exPair1 ! Suc 0) = js ''Q''"
  by (simp_all add: exPair1_def initialState_def deepCopy_def exPair_def exT_id)

lemma exPair_positioned:
  "positionedTables (initialState exPair []) = {}"
  "positionedTables exPair1 = {js ''P''}"
  by (simp_all add: exPair1_def initialState_def)

lemma exPair_tp:
  "tablePositions (initialState exPair []) = []"
  "tablePositions exPair1 = [(js ''P'', (100, 100))]"
  by (simp_all add: exPair1_def initialState_def)

lemma exPair_free:
  "\<not> isOverlapping [(js ''P'', (100, 100))] 500 100 (js ''Q'')"
  by (simp add: isOverlapping_def overlaps_def geometry)

lemma exPair_posP:
  "positionTable (Suc d) Map.empty 0 100 100 (initialState exPair []) = Some exPair1"
  by (simp add: exPair_ids exPair_positioned exPair_tp Let_def connectedTables_def exPair_placeP)

lemma exPair_posQ:
  "positionTable (Suc d) Map.empty (Suc 0) 500 100 exPair1 = Some exPair2"
  by (simp add: exPair_ids exPair_positioned exPair_tp Let_def connectedTables_def exPair_placeQ)

lemma exPair_seedQ: "seedTables (Suc d) Map.empty (Suc 0) [Suc 0] exPair1 = Some exPair2"
  by (simp del: positionTable.simps
           add: exPair_ids exPair_positioned seedPosition_def geometry exPair_posQ)

lemma exPair_seeded:
  "seedTables (Suc d) Map.empty 0 [0, Suc 0] (initialState exPair []) = Some exPair2"
  by (simp del: positionTable.simps
           add: exPair_ids exPair_positioned seedPosition_def geometry exPair_posP exPair_posQ)

lemma exPair_apply: "applyPositions exPair2 = exPair2"
  by (simp add: applyPositions_def exPair2_def exT_id)

lemma exPair_layout: "layout exPair [] = Some exPair2"
proof -
  have "layout exPair []
          = map_option applyPositions
              (seedTables (Suc (length exPair)) Map.empty 0 [0, Suc 0] (initialState exPair []))"
    by (simp only: layout_def layoutWithin_def deepCopy_def Let_def initialState_tables
                   exPair_connections exPair_sorted)
  also have "\<dots> = Some exPair2"
    by (simp only: exPair_seeded option.map exPair_apply)
  finally show ?thesis .
qed

lemma wf_exPair1: "wf exPair1"
  by (simp add: wf_def keysPlaced_def separated_def exPair1_def)

subsection \<open>No two placed tables overlap\<close>



subsection \<open>The layout returns, and what the search tests\<close>

text \<open>
  C2, as stated, has a search which reaches the cap accept the last point it tested.
  Against the crowded \<open>exGrid\<close>, whose entries do not overlap one another (lemma
  \<open>exGrid_apart\<close>), the search from \<open>(100, 100)\<close> finds each of its thousand points taken
  and returns \<open>(18850, 100)\<close>: not the point tested last, \<open>spiralPoint 100 100 999\<close>, nor
  any point tested.
\<close>

theorem cap_fallback_untested_counterexample:
  "spiral exGrid 100 100 (js ''t'') 0 0 0 = CapReached (18850, 100)
   \<and> findNonOverlappingPosition exGrid 100 100 (js ''t'') = (18850, 100)
   \<and> findNonOverlappingPosition exGrid 100 100 (js ''t'') \<noteq> spiralPoint 100 100 999
   \<and> findNonOverlappingPosition exGrid 100 100 (js ''t'') \<notin> spiralPoint 100 100 ` {..<1000}"
proof -
  have f: "findNonOverlappingPosition exGrid 100 100 (js ''t'') = (18850, 100)"
    by (simp add: findNonOverlappingPosition_def exGrid_cap)
  have "fst (spiralPoint 100 100 k) \<noteq> 18850" if "k < 1000" for k
    using spiralPoint_bounds(1) [of k 100 100] that by (simp add: maxIterations_def)
  then have ne: "spiralPoint 100 100 k \<noteq> (18850, 100)" if "k < 1000" for k
    using that by (metis fst_conv)
  have "(999::nat) < 1000" by simp
  from ne [OF this] have a: "(18850, 100) \<noteq> spiralPoint 100 100 999" by (rule not_sym)
  have b: "(18850, 100) \<notin> spiralPoint 100 100 ` {..<1000}"
    using ne by force
  from a b show ?thesis
    unfolding f by (simp add: exGrid_cap)
qed

text \<open>
  C2, amended: on every input the layout returns (one more level of nesting than
  there are tables is enough, and any greater bound gives the same result), with as many
  tables as it was given, each at the position recorded for its id. A call of
  \<open>positionTable\<close> on a table already placed changes nothing. The spiral search tests the
  points \<open>spiralPoint 0\<close>, \<open>spiralPoint 1\<close>, \<dots> in turn, at most \<open>1000\<close> of them: it
  returns the first that is free, and if all thousand are taken it returns the point
  \<open>(baseX + 18750, baseY)\<close>, which is none of the thousand.
\<close>

theorem layout_total_and_search_bounded:
  "(\<exists>s. layout tabs rels = Some s \<and> adjustTablePositions tabs rels = Some (tables s)
        \<and> length (tables s) = length tabs
        \<and> (\<forall>t \<in> set (tables s). map_of (tablePositions s) (table_id t) = Some (table_x t, table_y t)))
   \<and> (\<forall>d > length tabs. layoutWithin d tabs rels = layout tabs rels)
   \<and> (table_id (tables s0 ! i) \<in> positionedTables s0 \<longrightarrow> positionTable (Suc d0) m i x y s0 = Some s0)
   \<and> maxIterations = 1000
   \<and> ((\<exists>k < maxIterations. spiral tp bx by tid 0 0 0 = Found (spiralPoint bx by k)
          \<and> \<not> overlapsAt tp bx by tid k \<and> (\<forall>j < k. overlapsAt tp bx by tid j))
       \<or> (spiral tp bx by tid 0 0 0 = CapReached (bx + 18750, by)
          \<and> (\<forall>j < maxIterations. overlapsAt tp bx by tid j)))
   \<and> (\<forall>j < maxIterations. spiralPoint bx by j \<noteq> (bx + 18750, by))"
proof (intro conjI)
  from layout_result [of tabs rels]
  obtain s1 where l: "layout tabs rels = Some (applyPositions s1)" and w: "wf s1"
    and e: "extends (initialState tabs rels) s1"
    and ids: "table_id ` set (tables s1) \<subseteq> positionedTables s1"
    by auto
  have "adjustTablePositions tabs rels = Some (tables (applyPositions s1))"
    by (simp add: adjustTablePositions_def l)
  moreover have "length (tables (applyPositions s1)) = length tabs"
    using extends_length [OF e] by (simp add: applyPositions_def initialState_def deepCopy_def)
  moreover have "\<forall>t \<in> set (tables (applyPositions s1)).
      map_of (tablePositions (applyPositions s1)) (table_id t) = Some (table_x t, table_y t)"
    using applyPositions_placed [OF w ids] by (simp add: applyPositions_sel)
  ultimately show "\<exists>s. layout tabs rels = Some s \<and> adjustTablePositions tabs rels = Some (tables s)
        \<and> length (tables s) = length tabs
        \<and> (\<forall>t \<in> set (tables s). map_of (tablePositions s) (table_id t) = Some (table_x t, table_y t))"
    using l by blast
  show "\<forall>d > length tabs. layoutWithin d tabs rels = layout tabs rels"
    by (simp add: layoutWithin_depth)
  show "table_id (tables s0 ! i) \<in> positionedTables s0 \<longrightarrow> positionTable (Suc d0) m i x y s0 = Some s0"
    by simp
  show "maxIterations = 1000" by (simp add: maxIterations_def)
  show "(\<exists>k < maxIterations. spiral tp bx by tid 0 0 0 = Found (spiralPoint bx by k)
          \<and> \<not> overlapsAt tp bx by tid k \<and> (\<forall>j < k. overlapsAt tp bx by tid j))
       \<or> (spiral tp bx by tid 0 0 0 = CapReached (bx + 18750, by)
          \<and> (\<forall>j < maxIterations. overlapsAt tp bx by tid j))"
    using spiral_result [of tp bx "by" tid] by (simp add: spiralPoint_cap)
  show "\<forall>j < maxIterations. spiralPoint bx by j \<noteq> (bx + 18750, by)"
  proof (intro allI impI)
    fix j assume "j < maxIterations"
    from spiralPoint_bounds(1) [OF this, of bx "by"]
    have "fst (spiralPoint bx by j) \<noteq> bx + 18750" by linarith
    then show "spiralPoint bx by j \<noteq> (bx + 18750, by)" by (metis fst_conv)
  qed
qed

text \<open>
  The star is laid out, with any bound above three as well; \<open>B\<close>, already placed, is left
  alone; and the search against \<open>exGrid\<close> ends by the cap, its first and its last point
  taken like the rest, at a point that is not the last one tested.
\<close>

theorem layout_total_and_search_bounded_witness:
  "layout exStar exStarRels = Some exStar3
   \<and> layoutWithin 7 exStar exStarRels = Some exStar3
   \<and> map_of (tablePositions exStar3) (js ''C'') = Some (-300, 100)
   \<and> positionTable (Suc 0) exStarMap 0 0 0 exStar3 = Some exStar3
   \<and> spiral exGrid 100 100 (js ''t'') 0 0 0 = CapReached (18850, 100)
   \<and> overlapsAt exGrid 100 100 (js ''t'') 0 \<and> overlapsAt exGrid 100 100 (js ''t'') 999
   \<and> spiralPoint 100 100 999 \<noteq> (18850, 100)"
proof -
  have l: "layout exStar exStarRels = Some exStar3" by (rule exStar_layout)
  have len: "length exStar < 7" by (simp add: exStar_def)
  have p: "table_id (tables exStar3 ! 0) \<in> positionedTables exStar3"
    by (simp add: exStar_ids exStar_positioned)
  note t = layout_total_and_search_bounded
             [of exStar exStarRels exStar3 0 0 exStarMap 0 0 exGrid 100 100 "js ''t''"]
  from t [THEN conjunct2, THEN conjunct1] len l
  have w: "layoutWithin 7 exStar exStarRels = Some exStar3" by simp
  from t [THEN conjunct2, THEN conjunct2, THEN conjunct1] p
  have q: "positionTable (Suc 0) exStarMap 0 0 0 exStar3 = Some exStar3" by (rule mp)
  from t [THEN conjunct2, THEN conjunct2, THEN conjunct2, THEN conjunct2, THEN conjunct1]
  have "\<forall>j < maxIterations. overlapsAt exGrid 100 100 (js ''t'') j"
    by (auto simp: exGrid_cap)
  then have o: "overlapsAt exGrid 100 100 (js ''t'') 0" "overlapsAt exGrid 100 100 (js ''t'') 999"
    by (simp_all add: maxIterations_def)
  have c: "map_of (tablePositions exStar3) (js ''C'') = Some (-300, 100)"
    by (simp add: exStar3_def)
  from t [THEN conjunct2, THEN conjunct2, THEN conjunct2, THEN conjunct2, THEN conjunct2]
  have n: "spiralPoint 100 100 999 \<noteq> (18850, 100)"
    by (simp add: maxIterations_def)
  from l w c q exGrid_cap o n show ?thesis by (intro conjI)
qed

subsection \<open>The caller's data and the fields of the tables\<close>

text \<open>
  C3: the layout ends with the caller's two arrays as they were given, and each
  table it returns is the input table at the same place in every field but \<open>x\<close> and \<open>y\<close>.
  The first part rests on \<open>deepCopy\<close>, which is modelled from the spec: the closures write
  to the copy only.
\<close>

theorem only_positions_change:
  "\<exists>s. layout tabs rels = Some s \<and> adjustTablePositions tabs rels = Some (tables s)
      \<and> callerTables s = tabs \<and> callerRelationships s = rels
      \<and> list_all2 sameButPosition (tables s) tabs"
proof -
  from layout_result [of tabs rels]
  obtain s1 where l: "layout tabs rels = Some (applyPositions s1)"
    and e: "extends (initialState tabs rels) s1"
    by auto
  from e have "map unplaced (tables s1) = map unplaced tabs"
    by (simp add: extends_def initialState_def deepCopy_def)
  then have "map unplaced (tables (applyPositions s1)) = map unplaced tabs"
    by (simp only: applyPositions_unplaced)
  then have "list_all2 sameButPosition (tables (applyPositions s1)) tabs"
    by (rule unplaced_all_same)
  moreover from e have "callerTables (applyPositions s1) = tabs"
    and "callerRelationships (applyPositions s1) = rels"
    by (simp_all add: extends_def initialState_def applyPositions_caller)
  moreover have "adjustTablePositions tabs rels = Some (tables (applyPositions s1))"
    by (simp add: adjustTablePositions_def l)
  ultimately show ?thesis using l by blast
qed

text \<open>
  The star: the caller's three tables are as they were, at \<open>(0, 0)\<close>, and the returned
  ones differ from them in position only.
\<close>

theorem only_positions_change_witness:
  "adjustTablePositions exStar exStarRels = Some (tables exStar3)
   \<and> callerTables exStar3 = [exT (js ''B''), exT (js ''A''), exT (js ''C'')]
   \<and> callerRelationships exStar3 = exStarRels
   \<and> list_all2 sameButPosition (tables exStar3) [exT (js ''B''), exT (js ''A''), exT (js ''C'')]"
proof -
  from only_positions_change [of exStar exStarRels]
  obtain s where l: "layout exStar exStarRels = Some s"
    and rest: "adjustTablePositions exStar exStarRels = Some (tables s)"
      "callerTables s = exStar" "callerRelationships s = exStarRels"
      "list_all2 sameButPosition (tables s) exStar"
    by blast
  from l have "s = exStar3" by (simp add: exStar_layout)
  with rest show ?thesis by (simp add: exStar_def)
qed

subsection \<open>The seed cells\<close>

text \<open>
  C6, as stated, spaces the cells by \<open>tableWidth + gapX\<close> and
  \<open>tableHeight + gapY\<close>. Of two tables with no relationship the second is seeded at index
  1 and placed at \<open>x = 500\<close>, where the spec's cell has \<open>x = 400\<close>; the first cell of the
  second row has \<open>y = 600\<close>, the spec's \<open>y = 500\<close>.
\<close>

theorem seed_grid_spacing_counterexample:
  "adjustTablePositions exPair []
     = Some [(exT (js ''P''))\<lparr>table_x := 100, table_y := 100\<rparr>,
             (exT (js ''Q''))\<lparr>table_x := 500, table_y := 100\<rparr>]
   \<and> seedPosition 1 = (500, 100) \<and> specSeedPosition 1 = (400, 100)
   \<and> seedPosition 6 = (100, 600) \<and> specSeedPosition 6 = (100, 500)
   \<and> seedPosition 1 \<noteq> specSeedPosition 1 \<and> seedPosition 6 \<noteq> specSeedPosition 6"
  by (simp add: adjustTablePositions_def exPair_layout exPair2_def seedPosition_value
                specSeedPosition_def geometry)

text \<open>
  C6, amended: the cell of index \<open>k\<close> is in column \<open>k mod 6\<close> and row \<open>k div 6\<close>,
  the cells \<open>tableWidth + 2 * gapX = 400\<close> apart across and \<open>tableHeight + 2 * gapY = 500\<close>
  apart down from \<open>(100, 100)\<close>, so that exactly the six indices \<open>6 * r\<close>, \<dots>,
  \<open>6 * r + 5\<close> share row \<open>r\<close>. When the loop over the sorted tables reaches, at index
  \<open>k\<close>, a table not yet placed, the table is placed where the search from the cell of \<open>k\<close>
  ends: at the cell itself if nothing placed so far overlaps it.
\<close>

theorem seed_grid:
  "seedPosition k = (startX + real (k mod 6) * (tableWidth + 2 * gapX),
                     startY + real (k div 6) * (tableHeight + 2 * gapY))
   \<and> seedPosition k = (100 + 400 * real (k mod 6), 100 + 500 * real (k div 6))
   \<and> k mod 6 < 6
   \<and> {j. snd (seedPosition j) = snd (seedPosition k)} = {6 * (k div 6) ..< 6 * (k div 6) + 6}
   \<and> (wf s \<and> i < length (tables s) \<and> table_id (tables s ! i) \<notin> positionedTables s
        \<and> seedTables d m k (i # rest) s = Some s'
      \<longrightarrow> map_of (tablePositions s') (table_id (tables s ! i))
            = Some (findNonOverlappingPosition (tablePositions s)
                      (fst (seedPosition k)) (snd (seedPosition k)) (table_id (tables s ! i)))
          \<and> (\<not> isOverlapping (tablePositions s) (fst (seedPosition k)) (snd (seedPosition k))
                  (table_id (tables s ! i))
             \<longrightarrow> map_of (tablePositions s') (table_id (tables s ! i)) = Some (seedPosition k)))"
proof (intro conjI impI)
  show "seedPosition k = (startX + real (k mod 6) * (tableWidth + 2 * gapX),
                     startY + real (k div 6) * (tableHeight + 2 * gapY))"
    by (simp add: seedPosition_def mult.commute)
  show "seedPosition k = (100 + 400 * real (k mod 6), 100 + 500 * real (k div 6))"
    by (rule seedPosition_value)
  show "k mod 6 < 6" by simp
  show "{j. snd (seedPosition j) = snd (seedPosition k)} = {6 * (k div 6) ..< 6 * (k div 6) + 6}"
    by (simp only: seed_row seed_row_six)
next
  assume a: "wf s \<and> i < length (tables s) \<and> table_id (tables s ! i) \<notin> positionedTables s
        \<and> seedTables d m k (i # rest) s = Some s'"
  then show at: "map_of (tablePositions s') (table_id (tables s ! i))
            = Some (findNonOverlappingPosition (tablePositions s)
                      (fst (seedPosition k)) (snd (seedPosition k)) (table_id (tables s ! i)))"
    using seed_at [of d m k i rest s s'] by blast
  assume "\<not> isOverlapping (tablePositions s) (fst (seedPosition k)) (snd (seedPosition k))
                  (table_id (tables s ! i))"
  then show "map_of (tablePositions s') (table_id (tables s ! i)) = Some (seedPosition k)"
    unfolding at by (simp add: find_free_first)
qed

text \<open>
  The second of the two unrelated tables: reached at index 1 with the first at
  \<open>(100, 100)\<close>, its cell \<open>(500, 100)\<close> is free and it is placed there.
\<close>

theorem seed_grid_witness:
  "Suc 0 < length (tables exPair1)
   \<and> table_id (tables exPair1 ! Suc 0) \<notin> positionedTables exPair1
   \<and> seedTables 3 Map.empty (Suc 0) [Suc 0] exPair1 = Some exPair2
   \<and> \<not> isOverlapping (tablePositions exPair1) 500 100 (js ''Q'')
   \<and> map_of (tablePositions exPair2) (js ''Q'') = Some (500, 100)
   \<and> seedPosition (Suc 0) = (500, 100)"
proof -
  have run: "seedTables 3 Map.empty (Suc 0) [Suc 0] exPair1 = Some exPair2"
    using exPair_seedQ [of 2] by (simp add: numeral_3_eq_3)
  have len: "Suc 0 < length (tables exPair1)" by (simp add: exPair1_def)
  have new: "table_id (tables exPair1 ! Suc 0) \<notin> positionedTables exPair1"
    by (simp add: exPair_ids exPair_positioned)
  have cell: "seedPosition (Suc 0) = (500, 100)" by (simp add: seedPosition_value)
  have free: "\<not> isOverlapping (tablePositions exPair1) 500 100 (js ''Q'')"
    by (simp add: exPair_tp exPair_free)
  have pre: "wf exPair1 \<and> Suc 0 < length (tables exPair1)
      \<and> table_id (tables exPair1 ! Suc 0) \<notin> positionedTables exPair1
      \<and> seedTables 3 Map.empty (Suc 0) [Suc 0] exPair1 = Some exPair2"
    using wf_exPair1 len new run by (intro conjI)
  note seed_grid [of "Suc 0" exPair1 "Suc 0" 3 Map.empty "[]" exPair2,
                  THEN conjunct2, THEN conjunct2, THEN conjunct2, THEN conjunct2, THEN mp, OF pre]
  then have "\<not> isOverlapping (tablePositions exPair1) 500 100 (js ''Q'')
             \<longrightarrow> map_of (tablePositions exPair2) (js ''Q'') = Some (500, 100)"
    unfolding cell exPair_ids fst_conv snd_conv by (rule conjunct2)
  with free have at: "map_of (tablePositions exPair2) (js ''Q'') = Some (500, 100)" by (rule rev_mp)
  from len new run free at cell show ?thesis by (intro conjI)
qed

end
